theory Spec2Isabelle
  imports Complex_Main "HOL-Library.Multiset"
begin

section \<open>JavaScript numbers\<close>

text \<open>
  A number of the program is an IEEE 754 double. Counters, points and levels are integers
  far below \<open>2^53\<close>, where addition and subtraction of doubles are exact: they are
  integers here. Times, the progress of a gate and the random numbers are reals here. The
  progress is only compared with constants. An index \<open>Math.floor(Math.random() * n)\<close>
  is below \<open>n\<close> in doubles as in the reals, and what is proved of the word selector is
  proved for all random numbers. \<open>Math.floor(correctAnswers / 50)\<close> is the same in
  doubles and in the reals for an integer count.

  The scoring engine multiplies by the fraction \<open>0.2\<close> and rounds the product down, and
  there the rounding of the doubles shows: at level 19 the code computes
  \<open>Math.floor(100 * (1 + 18 * 0.2)) = 459\<close>. So in the scoring engine every arithmetic
  operation returns the double nearest to its exact result, a tie going to the even
  significand, and a decimal literal denotes the double nearest to it.

  \<open>binaryExponent 2045 x\<close> is the exponent of the double format for a magnitude
  \<open>x\<close>: the largest \<open>e\<close> from \<open>-1022\<close> to \<open>1023\<close> with \<open>2^e \<le> x\<close>, and
  \<open>-1022\<close> for the subnormal magnitudes below all of them. The doubles of that exponent
  are the multiples of \<open>2^(e - 52)\<close>, and \<open>roundDouble x\<close> is the nearest of them.
  Magnitudes of \<open>2^1024\<close> and more, which overflow to \<open>Infinity\<close>, are outside the
  model.
\<close>

definition roundHalfEven :: "real \<Rightarrow> int" where
  "roundHalfEven y =
     (let f = \<lfloor>y\<rfloor>
      in if y - of_int f < 1/2 then f
         else if 1/2 < y - of_int f then f + 1
         else if even f then f else f + 1)"

fun binaryExponent :: "nat \<Rightarrow> real \<Rightarrow> int" where
  "binaryExponent 0 x = -1022"
| "binaryExponent (Suc n) x =
     (if 2 powi (int (Suc n) - 1022) \<le> x then int (Suc n) - 1022 else binaryExponent n x)"

definition roundDouble :: "real \<Rightarrow> real" where
  "roundDouble x =
     (let e = binaryExponent 2045 \<bar>x\<bar>;
          ulp = 2 powi (e - 52)
      in sgn x * (of_int (roundHalfEven (\<bar>x\<bar> / ulp)) * ulp))"

text \<open>The operators \<open>+\<close>, \<open>-\<close>, \<open>*\<close> and \<open>/\<close> on doubles.\<close>

definition jsAdd :: "real \<Rightarrow> real \<Rightarrow> real" where
  "jsAdd x y = roundDouble (x + y)"

definition jsSub :: "real \<Rightarrow> real \<Rightarrow> real" where
  "jsSub x y = roundDouble (x - y)"

definition jsMul :: "real \<Rightarrow> real \<Rightarrow> real" where
  "jsMul x y = roundDouble (x * y)"

definition jsDiv :: "real \<Rightarrow> real \<Rightarrow> real" where
  "jsDiv x y = roundDouble (x / y)"


section \<open>Scoring engine (src/systems/ScoreSystem.ts)\<close>

text \<open>
  The mutable fields of the class are a record that every method takes and returns.
  \<open>Math.floor\<close> is \<open>floor\<close>, \<open>Math.max\<close> is \<open>max\<close>; \<open>Math.round\<close> rounds a tie
  upwards and is \<open>floor (x + 1/2)\<close>.
\<close>

record ScoreResult =
  basePoints :: int
  speedBonus :: int
  streakBonus :: int
  multiplier :: real
  totalPoints :: int

record ScoreSystem =
  score :: int
  streak :: int
  maxStreak :: int
  correctAnswers :: int
  totalAnswers :: int

definition newScoreSystem :: ScoreSystem where
  "newScoreSystem =
     \<lparr>score = 0, streak = 0, maxStreak = 0, correctAnswers = 0, totalAnswers = 0\<rparr>"

text \<open>The streak bonus chain of \<open>calculateScore\<close>, on the already incremented streak.\<close>

definition streakBonusFor :: "int \<Rightarrow> int" where
  "streakBonusFor s =
     (if s = 5 then 200
      else if s = 10 then 500
      else if s > 10 \<and> s mod 5 = 0 then 300
      else 0)"

text \<open>
  \<open>const multiplier = 1 + (hskLevel - 1) * 0.2\<close> and
  \<open>Math.floor((basePoints + speedBonus) * multiplier) + streakBonus\<close>, in doubles.
\<close>

definition calculateScore :: "bool \<Rightarrow> real \<Rightarrow> int \<Rightarrow> ScoreSystem \<Rightarrow> ScoreResult \<times> ScoreSystem" where
  "calculateScore correct decisionTimeMs hskLevel s =
     (let s1 = s\<lparr>totalAnswers := totalAnswers s + 1\<rparr> in
      if \<not> correct then
        (\<lparr>basePoints = 0, speedBonus = 0, streakBonus = 0, multiplier = 1, totalPoints = 0\<rparr>,
         s1\<lparr>streak := 0\<rparr>)
      else
        let s2 = s1\<lparr>correctAnswers := correctAnswers s1 + 1\<rparr>;
            s3 = s2\<lparr>streak := streak s2 + 1\<rparr>;
            s4 = s3\<lparr>maxStreak := max (maxStreak s3) (streak s3)\<rparr>;
            bp = (100::int);
            sb = (if decisionTimeMs < 1000 then 50 else 0);
            stb = streakBonusFor (streak s4);
            m = jsAdd 1 (jsMul (jsSub (of_int hskLevel) 1) (roundDouble 0.2));
            tp = \<lfloor>jsMul (of_int (bp + sb)) m\<rfloor> + stb
        in (\<lparr>basePoints = bp, speedBonus = sb, streakBonus = stb, multiplier = m,
             totalPoints = tp\<rparr>,
            s4\<lparr>score := score s4 + tp\<rparr>))"

definition reset :: "ScoreSystem \<Rightarrow> ScoreSystem" where
  "reset s = \<lparr>score = 0, streak = 0, maxStreak = 0, correctAnswers = 0, totalAnswers = 0\<rparr>"

text \<open>\<open>Math.round((this.correctAnswers / this.totalAnswers) * 100)\<close>\<close>

definition getAccuracy :: "ScoreSystem \<Rightarrow> int" where
  "getAccuracy s =
     (if totalAnswers s = 0 then 0
      else \<lfloor>jsMul (jsDiv (of_int (correctAnswers s)) (of_int (totalAnswers s))) 100 + 1/2\<rfloor>)"


subsection \<open>Drivers for sequences of calls\<close>

text \<open>
  A call of the public interface of the class, and the state after a list of calls made
  in order on one instance.
\<close>

datatype ScoreCall = Calculate bool real int | Reset

fun applyCall :: "ScoreCall \<Rightarrow> ScoreSystem \<Rightarrow> ScoreSystem" where
  "applyCall (Calculate c t l) s = snd (calculateScore c t l s)"
| "applyCall Reset s = reset s"

fun applyCalls :: "ScoreCall list \<Rightarrow> ScoreSystem \<Rightarrow> ScoreSystem" where
  "applyCalls [] s = s"
| "applyCalls (c # cs) s = applyCalls cs (applyCall c s)"

text \<open>
  The level of a call is the \<open>hskLevel\<close> of the current difficulty settings, a row of one
  of the two difficulty tables: a level from 1 to 6, so at least 1.
\<close>

fun levelAtLeastOne :: "ScoreCall \<Rightarrow> bool" where
  "levelAtLeastOne (Calculate c t l) = (1 \<le> l)"
| "levelAtLeastOne Reset = True"

text \<open>
  The results of an unbroken run of correct answers, each with its own decision time and
  level, starting in state \<open>s\<close>.
\<close>

fun correctRun :: "(real \<times> int) list \<Rightarrow> ScoreSystem \<Rightarrow> ScoreResult list" where
  "correctRun [] s = []"
| "correctRun ((t, l) # cs) s =
     fst (calculateScore True t l s) # correctRun cs (snd (calculateScore True t l s))"

definition countsInvariant :: "ScoreSystem \<Rightarrow> bool" where
  "countsInvariant s \<longleftrightarrow>
     0 \<le> streak s \<and> streak s \<le> maxStreak s \<and> 0 \<le> correctAnswers s \<and>
     correctAnswers s \<le> totalAnswers s"


section \<open>Difficulty controller\<close>

record DifficultySettings =
  hskLevel :: int
  speedMultiplier :: real
  decisionTime :: int

text \<open>
  An access to a field of \<open>undefined\<close> raises a \<open>TypeError\<close>; it is the only
  exception the modelled code can raise.
\<close>

datatype error = TypeError

definition initialSettings :: DifficultySettings where
  "initialSettings = \<lparr>hskLevel = 1, speedMultiplier = 1.0, decisionTime = 3000\<rparr>"

subsection \<open>Distance-gated variant (src/systems/DifficultySystem.ts)\<close>

text \<open>
  A row of \<open>DIFFICULTY_THRESHOLDS\<close> is the distance at which the tier starts, paired
  with the settings the update copies out of the row.
\<close>

definition DIFFICULTY_THRESHOLDS :: "(real \<times> DifficultySettings) list" where
  "DIFFICULTY_THRESHOLDS =
     [(0, \<lparr>hskLevel = 1, speedMultiplier = 1.0, decisionTime = 3000\<rparr>),
      (500, \<lparr>hskLevel = 2, speedMultiplier = 1.1, decisionTime = 2700\<rparr>),
      (1500, \<lparr>hskLevel = 3, speedMultiplier = 1.2, decisionTime = 2400\<rparr>),
      (3000, \<lparr>hskLevel = 4, speedMultiplier = 1.3, decisionTime = 2100\<rparr>),
      (5000, \<lparr>hskLevel = 5, speedMultiplier = 1.4, decisionTime = 1800\<rparr>),
      (8000, \<lparr>hskLevel = 6, speedMultiplier = 1.5, decisionTime = 1500\<rparr>)]"

text \<open>
  The result of an update is the new current settings and the argument of the level-change
  callback when the callback is invoked (a callback being registered).

  The loop runs over the table from its last row to its first and stops at the first row
  whose distance the signal has reached; when no row matches, the current settings stay.
\<close>

definition levelChange :: "int \<Rightarrow> DifficultySettings \<Rightarrow> int option" where
  "levelChange previousLevel cur =
     (if hskLevel cur \<noteq> previousLevel then Some (hskLevel cur) else None)"

definition update_distance ::
  "real \<Rightarrow> DifficultySettings \<Rightarrow> DifficultySettings \<times> int option" where
  "update_distance distance cur =
     (let previousLevel = hskLevel cur;
          cur1 = (case find (\<lambda>threshold. distance \<ge> fst threshold) (rev DIFFICULTY_THRESHOLDS) of
                    Some threshold \<Rightarrow> snd threshold
                  | None \<Rightarrow> cur)
      in (cur1, levelChange previousLevel cur1))"

subsection \<open>Count-gated variant (the second DifficultySystem of the repository)\<close>

definition CORRECT_ANSWERS_PER_LEVEL :: real where
  "CORRECT_ANSWERS_PER_LEVEL = 50"

definition LEVEL_SETTINGS :: "DifficultySettings list" where
  "LEVEL_SETTINGS =
     [\<lparr>hskLevel = 1, speedMultiplier = 1.0, decisionTime = 3000\<rparr>,
      \<lparr>hskLevel = 2, speedMultiplier = 1.05, decisionTime = 2800\<rparr>,
      \<lparr>hskLevel = 3, speedMultiplier = 1.1, decisionTime = 2600\<rparr>,
      \<lparr>hskLevel = 4, speedMultiplier = 1.15, decisionTime = 2400\<rparr>,
      \<lparr>hskLevel = 5, speedMultiplier = 1.2, decisionTime = 2200\<rparr>,
      \<lparr>hskLevel = 6, speedMultiplier = 1.25, decisionTime = 2000\<rparr>]"

text \<open>
  \<open>LEVEL_SETTINGS[levelIndex]\<close> is \<open>undefined\<close> for an index outside the table, and
  reading \<open>settings.hskLevel\<close> then raises. The index never exceeds 5; it is negative
  exactly when the signal is.
\<close>

definition update_correct ::
  "real \<Rightarrow> DifficultySettings \<Rightarrow> error + (DifficultySettings \<times> int option)" where
  "update_correct correct cur =
     (let previousLevel = hskLevel cur;
          newLevel = min 6 (\<lfloor>correct / CORRECT_ANSWERS_PER_LEVEL\<rfloor> + 1);
          levelIndex = newLevel - 1
      in if levelIndex < 0 \<or> int (length LEVEL_SETTINGS) \<le> levelIndex then Inl TypeError
         else let cur1 = LEVEL_SETTINGS ! nat levelIndex
              in Inr (cur1, levelChange previousLevel cur1))"


text \<open>
  The distance-gated controller after a sequence of updates, each with its own signal.
\<close>

fun updates_distance :: "real list \<Rightarrow> DifficultySettings \<Rightarrow> DifficultySettings" where
  "updates_distance [] cur = cur"
| "updates_distance (s # signals) cur = updates_distance signals (fst (update_distance s cur))"


section \<open>Word selector (src/systems/WordManager.ts)\<close>

record Word =
  target :: string
  pronunciation :: string
  english :: string
  category :: string

datatype Lane = Left | Center | Right

datatype QuestionMode = EnglishToTarget | TargetToEnglish

text \<open>
  An option's word is read from the distractor array by index; past the end of the array
  the read gives \<open>undefined\<close>, which is \<open>None\<close> here.
\<close>

record LaneOption =
  lane :: Lane
  word :: "Word option"

record WordQuestion =
  correctWord :: Word
  options :: "LaneOption list"
  correctLane :: Lane
  mode :: QuestionMode

record WordManager =
  recentWords :: "string list"
  customWords :: "Word list option"

definition maxRecentWords :: nat where
  "maxRecentWords = 20"

definition newWordManager :: WordManager where
  "newWordManager = \<lparr>recentWords = [], customWords = None\<rparr>"

definition setCustomWords :: "Word list \<Rightarrow> WordManager \<Rightarrow> WordManager" where
  "setCustomWords ws wm = wm\<lparr>customWords := Some ws\<rparr>"

subsection \<open>Random numbers\<close>

text \<open>
  Each call of \<open>Math.random()\<close> is an argument of the model. One question draws: the
  index of the correct word among the words not used recently, the index of the fallback
  pick, one number per iteration of each of the two shuffles (indexed by the loop
  variable), the lane of the correct word, and the mode. \<open>Math.random()\<close> returns a
  number in \<open>[0, 1)\<close>: \<open>validDraws\<close>.
\<close>

record Draws =
  pickAvailable :: real
  pickAny :: real
  shuffleCategory :: "nat \<Rightarrow> real"
  shufflePool :: "nat \<Rightarrow> real"
  pickLane :: real
  pickMode :: real

definition unitInterval :: "real \<Rightarrow> bool" where
  "unitInterval r \<longleftrightarrow> 0 \<le> r \<and> r < 1"

definition validDraws :: "Draws \<Rightarrow> bool" where
  "validDraws d \<longleftrightarrow>
     unitInterval (pickAvailable d) \<and> unitInterval (pickAny d) \<and>
     (\<forall>i. unitInterval (shuffleCategory d i)) \<and> (\<forall>i. unitInterval (shufflePool d i)) \<and>
     unitInterval (pickLane d) \<and> unitInterval (pickMode d)"

text \<open>\<open>Math.floor(Math.random() * n)\<close>\<close>

definition randomIndex :: "real \<Rightarrow> nat \<Rightarrow> nat" where
  "randomIndex r n = nat \<lfloor>r * real n\<rfloor>"

text \<open>An array read: \<open>undefined\<close> outside the array.\<close>

definition arrayAt :: "'a list \<Rightarrow> nat \<Rightarrow> 'a option" where
  "arrayAt xs i = (if i < length xs then Some (xs ! i) else None)"

subsection \<open>Shuffle\<close>

text \<open>
  \<open>for (i = length - 1; i > 0; i--) { j = floor(random() * (i + 1)); swap i, j }\<close>:
  \<open>shuffleFrom rnd i\<close> runs the iterations \<open>i, i - 1, ..., 1\<close>.
\<close>

fun shuffleFrom :: "(nat \<Rightarrow> real) \<Rightarrow> nat \<Rightarrow> 'a list \<Rightarrow> 'a list" where
  "shuffleFrom rnd 0 shuffled = shuffled"
| "shuffleFrom rnd (Suc k) shuffled =
     (let i = Suc k;
          j = randomIndex (rnd i) (i + 1)
      in shuffleFrom rnd k (shuffled[i := shuffled ! j, j := shuffled ! i]))"

definition shuffle :: "(nat \<Rightarrow> real) \<Rightarrow> 'a list \<Rightarrow> 'a list" where
  "shuffle rnd array = shuffleFrom rnd (length array - 1) array"

subsection \<open>Distractors\<close>

text \<open>
  One of the two \<open>for ... of\<close> loops of \<open>getDistractors\<close>: stop once two distractors are
  held, skip a word whose target text is already among them.
\<close>

fun fillDistractors :: "Word list \<Rightarrow> Word list \<Rightarrow> Word list" where
  "fillDistractors distractors [] = distractors"
| "fillDistractors distractors (w # ws) =
     (if length distractors \<ge> 2 then distractors
      else if \<not> list_ex (\<lambda>d. target d = target w) distractors
        then fillDistractors (distractors @ [w]) ws
      else fillDistractors distractors ws)"

definition getDistractors :: "Word \<Rightarrow> Word list \<Rightarrow> Draws \<Rightarrow> Word list" where
  "getDistractors cw pool d =
     (let sameCategoryWords =
            filter (\<lambda>w. category w = category cw \<and> target w \<noteq> target cw) pool;
          shuffledCategory = shuffle (shuffleCategory d) sameCategoryWords;
          shuffledPool = shuffle (shufflePool d) (filter (\<lambda>w. target w \<noteq> target cw) pool);
          distractors1 = fillDistractors [] shuffledCategory
      in fillDistractors distractors1 shuffledPool)"

subsection \<open>Question generation\<close>

text \<open>
  The vocabulary tables are data files; \<open>getWordsForLevel\<close> with the manager's language is
  the parameter \<open>tbl\<close>.
\<close>

definition getAvailableWords :: "(int \<Rightarrow> Word list) \<Rightarrow> int \<Rightarrow> Word list" where
  "getAvailableWords tbl level =
     (let currentWords = tbl level;
          prevWords = (if level > 1 then tbl (level - 1) else [])
      in currentWords @ prevWords)"

text \<open>The candidate pool: the custom deck when one is set and not empty.\<close>

definition candidateWords :: "(int \<Rightarrow> Word list) \<Rightarrow> WordManager \<Rightarrow> int \<Rightarrow> Word list" where
  "candidateWords tbl wm level =
     (case customWords wm of
        Some ws \<Rightarrow> if length ws > 0 then ws else getAvailableWords tbl level
      | None \<Rightarrow> getAvailableWords tbl level)"

text \<open>\<open>push\<close>, then \<open>shift\<close> when the buffer has grown past its bound.\<close>

definition pushRecent :: "string \<Rightarrow> string list \<Rightarrow> string list" where
  "pushRecent t recent =
     (let recent1 = recent @ [t]
      in if length recent1 > maxRecentWords then tl recent1 else recent1)"

definition lanes :: "Lane list" where
  "lanes = [Left, Center, Right]"

text \<open>
  The body of the loop \<open>for (i = 0; i < 3; i++)\<close>, on the options built so far and
  \<open>distractorIndex\<close>.
\<close>

definition addOption ::
  "nat \<Rightarrow> Word \<Rightarrow> Word list \<Rightarrow> LaneOption list \<times> nat \<Rightarrow> nat \<Rightarrow> LaneOption list \<times> nat" where
  "addOption correctLaneIndex cw distractors acc i =
     (case acc of (opts, distractorIndex) \<Rightarrow>
        if i = correctLaneIndex
        then (opts @ [\<lparr>lane = lanes ! i, word = Some cw\<rparr>], distractorIndex)
        else (opts @ [\<lparr>lane = lanes ! i, word = arrayAt distractors distractorIndex\<rparr>],
              distractorIndex + 1))"

text \<open>
  \<open>availableWords[k] || words[k']\<close>: a word object is truthy, so the fallback is taken
  exactly when the first read is \<open>undefined\<close>, that is when no word is available.
\<close>

definition pickCorrectWord :: "Word list \<Rightarrow> string list \<Rightarrow> Draws \<Rightarrow> Word option" where
  "pickCorrectWord words recent d =
     (let availableWords = filter (\<lambda>w. target w \<notin> set recent) words
      in case arrayAt availableWords (randomIndex (pickAvailable d) (length availableWords)) of
           Some w \<Rightarrow> Some w
         | None \<Rightarrow> arrayAt words (randomIndex (pickAny d) (length words)))"

definition laneOptions :: "nat \<Rightarrow> Word \<Rightarrow> Word list \<Rightarrow> LaneOption list" where
  "laneOptions correctLaneIndex cw distractors =
     fst (foldl (addOption correctLaneIndex cw distractors) ([], 0) [0..<3])"

text \<open>
  With an empty pool both reads of the pick are \<open>undefined\<close> and \<open>correctWord.target\<close>
  raises.
\<close>

definition generateQuestion ::
  "(int \<Rightarrow> Word list) \<Rightarrow> int \<Rightarrow> Draws \<Rightarrow> WordManager \<Rightarrow> error + (WordQuestion \<times> WordManager)" where
  "generateQuestion tbl level d wm =
     (let words = candidateWords tbl wm level
      in case pickCorrectWord words (recentWords wm) d of
           None \<Rightarrow> Inl TypeError
         | Some cw \<Rightarrow>
             let wm1 = wm\<lparr>recentWords := pushRecent (target cw) (recentWords wm)\<rparr>;
                 distractors = getDistractors cw words d;
                 correctLaneIndex = randomIndex (pickLane d) 3;
                 opts = laneOptions correctLaneIndex cw distractors;
                 m = (if pickMode d < 0.5 then EnglishToTarget else TargetToEnglish)
             in Inr (\<lparr>correctWord = cw, options = opts,
                      correctLane = lanes ! correctLaneIndex, mode = m\<rparr>, wm1))"

text \<open>A sequence of calls on one manager, each with its level and its draws.\<close>

fun generateQuestions ::
  "(int \<Rightarrow> Word list) \<Rightarrow> (int \<times> Draws) list \<Rightarrow> WordManager \<Rightarrow>
     error + (WordQuestion list \<times> WordManager)" where
  "generateQuestions tbl [] wm = Inr ([], wm)"
| "generateQuestions tbl ((level, d) # calls) wm =
     (case generateQuestion tbl level d wm of
        Inl e \<Rightarrow> Inl e
      | Inr (q, wm1) \<Rightarrow>
          (case generateQuestions tbl calls wm1 of
             Inl e \<Rightarrow> Inl e
           | Inr (qs, wm2) \<Rightarrow> Inr (q # qs, wm2)))"


subsection \<open>The recency buffer as a list\<close>

text \<open>
  The \<open>n\<close> most recent entries of a buffer whose newest entry is last; and the
  condition that each pick of a sequence is absent from the buffer it is pushed onto.
\<close>

definition lastN :: "nat \<Rightarrow> 'a list \<Rightarrow> 'a list" where
  "lastN n xs = drop (length xs - n) xs"

fun freshPicks :: "string list \<Rightarrow> string list \<Rightarrow> bool" where
  "freshPicks recent [] = True"
| "freshPicks recent (t # ts) = (t \<notin> set recent \<and> freshPicks (pushRecent t recent) ts)"

subsection \<open>Sample data\<close>

definition sampleWord :: "string \<Rightarrow> string \<Rightarrow> Word" where
  "sampleWord t c = \<lparr>target = t, pronunciation = t, english = t, category = c\<rparr>"

definition samplePool :: "Word list" where
  "samplePool =
     [sampleWord ''a'' ''x'', sampleWord ''b'' ''y'', sampleWord ''c'' ''x'',
      sampleWord ''d'' ''y'']"

text \<open>Twenty-one words whose target texts have the lengths 0 to 20.\<close>

definition largePool :: "Word list" where
  "largePool = map (\<lambda>n. sampleWord (replicate n CHR ''a'') ''x'') [0..<21]"

definition sampleDraws :: Draws where
  "sampleDraws =
     \<lparr>pickAvailable = 0.4, pickAny = 0, shuffleCategory = (\<lambda>_. 0.9),
      shufflePool = (\<lambda>_. 1/2), pickLane = 0.5, pickMode = 0.7\<rparr>"


section \<open>Gate lifecycle (scenes/GameScene.ts and the class Game3D)\<close>

text \<open>
  The repository holds the gate loop twice: in the Phaser scene \<open>GameScene\<close> (method
  \<open>update\<close>) and in the three.js class \<open>Game3D\<close> (method \<open>animate\<close>, the same in both
  copies of the class). The two differ in their constants, in one \<open>Math.min\<close> and in the
  place where a gate is drawn; the model takes the class as a parameter. Of the drawing only
  the reads of \<open>option.word\<close> are kept, which raise when the word is \<open>undefined\<close>. Sound,
  the distance counter shown in the HUD and the animation of the player are left out: none
  of them is read by the gate loop.

  Time is an input: the frame time (\<open>time\<close> and \<open>this.time.now\<close> in the scene,
  \<open>performance.now()\<close> in \<open>Game3D\<close>), taken as one value for all reads within a frame.

  Two history variables are added to the state of the program. They are written and never
  read by it: \<open>collisions\<close> of a gate counts the calls of \<open>processGateCollision\<close> made
  with that gate, and \<open>removed\<close> of the game collects the gates that \<open>splice\<close> has
  taken out of the array, in the state they had then.
\<close>

record Gate3D =
  progress :: real
  question :: WordQuestion
  processed :: bool
  spawnTime :: real
  collisions :: nat

datatype Variant = GameScene | Game3D

fun GATE_TRAVEL_TIME :: "Variant \<Rightarrow> real" where
  "GATE_TRAVEL_TIME GameScene = 6000"
| "GATE_TRAVEL_TIME Game3D = 4000"

fun GATE_SPACING_TIME :: "Variant \<Rightarrow> real" where
  "GATE_SPACING_TIME GameScene = 6500"
| "GATE_SPACING_TIME Game3D = 4500"

text \<open>The bound of \<open>if (gate.progress >= ... && !gate.processed)\<close>.\<close>

fun collisionThreshold :: "Variant \<Rightarrow> real" where
  "collisionThreshold GameScene = 0.95"
| "collisionThreshold Game3D = 0.98"

text \<open>The bound of \<open>if (gate.progress >= ...)\<close> under the comment "Remove passed gates".\<close>

fun removalThreshold :: "Variant \<Rightarrow> real" where
  "removalThreshold GameScene = 1.1"
| "removalThreshold Game3D = 1.15"

text \<open>
  \<open>GameScene\<close>: \<open>Math.min(1, elapsed / (GATE_TRAVEL_TIME / this.gameSpeed))\<close>;
  \<open>Game3D\<close>: \<open>elapsed / (this.GATE_TRAVEL_TIME / this.gameSpeed)\<close>.
\<close>

fun gateProgress :: "Variant \<Rightarrow> real \<Rightarrow> real \<Rightarrow> real" where
  "gateProgress GameScene elapsed speed = min 1 (elapsed / (GATE_TRAVEL_TIME GameScene / speed))"
| "gateProgress Game3D elapsed speed = elapsed / (GATE_TRAVEL_TIME Game3D / speed)"

record Game =
  currentLane :: Lane
  wordManager :: WordManager
  scoreSystem :: ScoreSystem
  difficultySystem :: DifficultySettings
  lives :: int
  gameSpeed :: real
  gates :: "Gate3D list"
  lastGateSpawnTime :: real
  questionStartTime :: real
  isPaused :: bool
  isGameOver :: bool
  removed :: "Gate3D list"

text \<open>
  The state after the constructor (\<open>resetGameState\<close> in the scene). \<open>isGameOver\<close> stands
  in the scene for the switch to the game-over scene, after which \<open>update\<close> is no longer
  called; the scene has no pause.
\<close>

definition newGame :: "WordManager \<Rightarrow> Game" where
  "newGame wm =
     \<lparr>currentLane = Center, wordManager = wm, scoreSystem = newScoreSystem,
      difficultySystem = initialSettings, lives = 3, gameSpeed = 1, gates = [],
      lastGateSpawnTime = 0, questionStartTime = 0, isPaused = False, isGameOver = False,
      removed = []\<rparr>"

definition gameOver :: "Game \<Rightarrow> Game" where
  "gameOver st = st\<lparr>isGameOver := True\<rparr>"

definition processGateCollision :: "real \<Rightarrow> Gate3D \<Rightarrow> Game \<Rightarrow> Game" where
  "processGateCollision now gate st =
     (let isCorrect = (currentLane st = correctLane (question gate));
          decisionTimeMs = now - questionStartTime st;
          (result, ss) = calculateScore isCorrect decisionTimeMs
                           (hskLevel (difficultySystem st)) (scoreSystem st);
          st1 = st\<lparr>scoreSystem := ss\<rparr>
      in if isCorrect then
           (if correctAnswers ss mod 10 = 0 \<and> lives st1 < 3
            then st1\<lparr>lives := lives st1 + 1\<rparr> else st1)
         else
           (let st2 = st1\<lparr>lives := lives st1 - 1\<rparr>
            in if lives st2 \<le> 0 then gameOver st2 else st2))"

subsection \<open>Drawing a gate\<close>

text \<open>
  \<open>Game3D.createGate\<close> builds the meshes of a new gate and reads \<open>option.word.english\<close>
  or \<open>option.word.target\<close> of every option of the question; \<open>GameScene.renderGate\<close>
  redraws a gate and reads \<open>option.word.chinese\<close> of every option. Either raises a
  \<open>TypeError\<close> when the word of an option is \<open>undefined\<close>.
\<close>

definition createGate :: "real \<Rightarrow> WordQuestion \<Rightarrow> error + Gate3D" where
  "createGate now q =
     (if list_ex (\<lambda>opt. word opt = None) (options q) then Inl TypeError
      else Inr \<lparr>progress = 0, question = q, processed = False, spawnTime = now,
                collisions = 0\<rparr>)"

definition renderGate :: "Gate3D \<Rightarrow> error + unit" where
  "renderGate gate =
     (if list_ex (\<lambda>opt. word opt = None) (options (question gate)) then Inl TypeError
      else Inr ())"

subsection \<open>The loop over the gates\<close>

text \<open>The three tests and assignments of the loop body, for the gate they act on.\<close>

definition advanceGate :: "Variant \<Rightarrow> real \<Rightarrow> real \<Rightarrow> Gate3D \<Rightarrow> Gate3D" where
  "advanceGate v now speed gate =
     (let elapsed = now - spawnTime gate
      in gate\<lparr>progress := gateProgress v elapsed speed\<rparr>)"

definition collides :: "Variant \<Rightarrow> Gate3D \<Rightarrow> bool" where
  "collides v gate \<longleftrightarrow> progress gate \<ge> collisionThreshold v \<and> \<not> processed gate"

definition passed :: "Variant \<Rightarrow> Gate3D \<Rightarrow> bool" where
  "passed v gate \<longleftrightarrow> progress gate \<ge> removalThreshold v"

text \<open>
  The body of \<open>for (let i = this.gates.length - 1; i >= 0; i--)\<close> at index \<open>i\<close>, apart
  from the drawing. The gate is an object held by the array, so the assignments to its
  fields are updates of the array at \<open>i\<close>; \<open>splice(i, 1)\<close> removes the entry at \<open>i\<close>.
  The loop runs the body at indices below the length of the array only: it starts at the
  last index, and an iteration removes no entry but its own.
\<close>

definition gateStep :: "Variant \<Rightarrow> real \<Rightarrow> nat \<Rightarrow> Game \<Rightarrow> Game" where
  "gateStep v now i st =
     (let gate = advanceGate v now (gameSpeed st) (gates st ! i);
          st1 = st\<lparr>gates := (gates st)[i := gate]\<rparr>;
          st2 = (if collides v gate
                 then (let st' = processGateCollision now gate st1
                       in st'\<lparr>gates := (gates st')[i := gate\<lparr>processed := True,
                                 collisions := collisions gate + 1\<rparr>]\<rparr>)
                 else st1)
      in if passed v gate
         then (let st3 = st2\<lparr>gates := take i (gates st2) @ drop (Suc i) (gates st2),
                            removed := removed st2 @ [gates st2 ! i]\<rparr>
               in if length (gates st3) > 0 then st3\<lparr>questionStartTime := now\<rparr> else st3)
         else st2)"

text \<open>
  \<open>gateLoop v now n\<close> runs the body at the indices \<open>n - 1, ..., 0\<close>: the loop of a frame
  in which no drawing raises.
\<close>

fun gateLoop :: "Variant \<Rightarrow> real \<Rightarrow> nat \<Rightarrow> Game \<Rightarrow> Game" where
  "gateLoop v now 0 st = st"
| "gateLoop v now (Suc i) st = gateLoop v now i (gateStep v now i st)"

text \<open>
  The body with the drawing: \<open>GameScene.update\<close> calls \<open>this.renderGate(gate)\<close> on every
  gate it visits, between the assignment of the progress and the collision test; the gates
  of \<open>Game3D\<close> are moved, not redrawn. An exception ends the frame.
\<close>

definition updateGate :: "Variant \<Rightarrow> real \<Rightarrow> nat \<Rightarrow> Game \<Rightarrow> error + Game" where
  "updateGate v now i st =
     (case (case v of GameScene \<Rightarrow> renderGate (gates st ! i) | Game3D \<Rightarrow> Inr ()) of
        Inl e \<Rightarrow> Inl e
      | Inr _ \<Rightarrow> Inr (gateStep v now i st))"

fun updateGates :: "Variant \<Rightarrow> real \<Rightarrow> nat \<Rightarrow> Game \<Rightarrow> error + Game" where
  "updateGates v now 0 st = Inr st"
| "updateGates v now (Suc i) st =
     (case updateGate v now i st of
        Inl e \<Rightarrow> Inl e
      | Inr st1 \<Rightarrow> updateGates v now i st1)"

subsection \<open>Spawning, the frame, pause\<close>

text \<open>
  \<open>Game3D.spawnGate\<close> pushes the gate that \<open>createGate\<close> returns, so nothing is pushed
  when \<open>createGate\<close> raises; \<open>GameScene.spawnGate\<close> pushes an object literal and draws
  nothing.
\<close>

definition spawnGate ::
  "Variant \<Rightarrow> (int \<Rightarrow> Word list) \<Rightarrow> real \<Rightarrow> Draws \<Rightarrow> Game \<Rightarrow> error + Game" where
  "spawnGate v tbl now d st =
     (case generateQuestion tbl (hskLevel (difficultySystem st)) d (wordManager st) of
        Inl e \<Rightarrow> Inl e
      | Inr (q, wm) \<Rightarrow>
          let st1 = st\<lparr>wordManager := wm\<rparr>;
              st2 = (if length (gates st1) = 0 then st1\<lparr>questionStartTime := now\<rparr> else st1)
          in case (case v of
                     Game3D \<Rightarrow> createGate now q
                   | GameScene \<Rightarrow> Inr \<lparr>progress = 0, question = q, processed = False,
                                        spawnTime = now, collisions = 0\<rparr>) of
               Inl e \<Rightarrow> Inl e
             | Inr gate \<Rightarrow> Inr (st2\<lparr>gates := gates st2 @ [gate], lastGateSpawnTime := now\<rparr>))"

text \<open>
  Both classes call \<open>this.difficultySystem.update(this.scoreSystem.getCorrectAnswers())\<close>;
  which of the two controllers is imported is the parameter \<open>upd\<close>.
\<close>

type_synonym difficultyUpdate =
  "real \<Rightarrow> DifficultySettings \<Rightarrow> error + (DifficultySettings \<times> int option)"

definition distanceGated :: difficultyUpdate where
  "distanceGated signal cur = Inr (update_distance signal cur)"

definition countGated :: difficultyUpdate where
  "countGated signal cur = update_correct signal cur"

text \<open>
  One frame: \<open>Game3D.animate\<close>, \<open>GameScene.update\<close>. A frame after the game is over or
  while it is paused changes nothing. An exception is not caught by the program: it is the
  result of the frame, and of the session.
\<close>

definition animate ::
  "Variant \<Rightarrow> difficultyUpdate \<Rightarrow> (int \<Rightarrow> Word list) \<Rightarrow> real \<Rightarrow> Draws \<Rightarrow> Game \<Rightarrow> error + Game" where
  "animate v upd tbl now d st =
     (if isGameOver st then Inr st
      else if isPaused st then Inr st
      else case upd (of_int (correctAnswers (scoreSystem st))) (difficultySystem st) of
             Inl e \<Rightarrow> Inl e
           | Inr (settings, notified) \<Rightarrow>
               let st1 = st\<lparr>difficultySystem := settings,
                            gameSpeed := speedMultiplier settings\<rparr>
               in case updateGates v now (length (gates st1)) st1 of
                    Inl e \<Rightarrow> Inl e
                  | Inr st2 \<Rightarrow>
                      let timeSinceLastSpawn = now - lastGateSpawnTime st2
                      in if length (gates st2) = 0 \<or>
                            timeSinceLastSpawn > GATE_SPACING_TIME v / gameSpeed st2
                         then spawnGate v tbl now d st2
                         else Inr st2)"

definition togglePause :: "Game \<Rightarrow> Game" where
  "togglePause st = st\<lparr>isPaused := \<not> isPaused st\<rparr>"

text \<open>A session: frames at their times and presses of the pause key, in order.\<close>

datatype Input = Frame real Draws | PauseKey

fun play ::
  "Variant \<Rightarrow> difficultyUpdate \<Rightarrow> (int \<Rightarrow> Word list) \<Rightarrow> Input list \<Rightarrow> Game \<Rightarrow> error + Game" where
  "play v upd tbl [] st = Inr st"
| "play v upd tbl (Frame now d # inputs) st =
     (case animate v upd tbl now d st of
        Inl e \<Rightarrow> Inl e
      | Inr st1 \<Rightarrow> play v upd tbl inputs st1)"
| "play v upd tbl (PauseKey # inputs) st = play v upd tbl inputs (togglePause st)"

subsection \<open>One gate in one frame\<close>

text \<open>The gate as the loop body leaves it.\<close>

definition settle :: "Variant \<Rightarrow> real \<Rightarrow> real \<Rightarrow> Gate3D \<Rightarrow> Gate3D" where
  "settle v now speed gate =
     (let g = advanceGate v now speed gate
      in if collides v g then g\<lparr>processed := True, collisions := collisions g + 1\<rparr> else g)"

subsection \<open>Every gate resolved once\<close>

text \<open>
  The state of the history variables in which no gate has been resolved twice: an active
  gate has received one call of \<open>processGateCollision\<close> if it is marked processed and
  none otherwise, and it is marked once its progress has reached the collision threshold;
  a removed gate has received exactly one call; and the scoring engine has been called as
  often as the gates, active and removed, have been resolved.
\<close>

definition resolvedOnce :: "Variant \<Rightarrow> Game \<Rightarrow> bool" where
  "resolvedOnce v st \<longleftrightarrow>
     list_all (\<lambda>g. collisions g = (if processed g then 1 else 0) \<and>
                  (collisionThreshold v \<le> progress g \<longrightarrow> processed g)) (gates st) \<and>
     list_all (\<lambda>g. processed g \<and> collisions g = 1) (removed st) \<and>
     totalAnswers (scoreSystem st) = int (sum_list (map collisions (gates st @ removed st)))"


section \<open>Properties of the arithmetic\<close>

lemma roundHalfEven_nonneg: "0 \<le> y \<Longrightarrow> 0 \<le> roundHalfEven y"
  by (simp add: roundHalfEven_def Let_def)

lemma roundDouble_nonneg:
  assumes "0 \<le> x"
  shows "0 \<le> roundDouble x"
proof -
  let ?ulp = "(2::real) powi (binaryExponent 2045 \<bar>x\<bar> - 52)"
  have ulp: "0 < ?ulp"
    by (rule zero_less_power_int) simp
  then have "0 \<le> \<bar>x\<bar> / ?ulp"
    by simp
  then have "0 \<le> roundHalfEven (\<bar>x\<bar> / ?ulp)"
    by (rule roundHalfEven_nonneg)
  then have "0 \<le> of_int (roundHalfEven (\<bar>x\<bar> / ?ulp)) * ?ulp"
    using ulp by simp
  moreover have "0 \<le> sgn x"
    using assms by (simp add: sgn_if)
  ultimately show ?thesis
    unfolding roundDouble_def Let_def by (rule mult_nonneg_nonneg[rotated])
qed

lemma roundDouble_zero: "roundDouble 0 = 0"
  by (simp add: roundDouble_def)

lemma roundDouble_minus: "roundDouble (- x) = - roundDouble x"
  by (simp add: roundDouble_def Let_def sgn_minus)

lemma binaryExponent_eq:
  assumes "2 powi e \<le> x" and "x < 2 powi (e + 1)" and "-1022 \<le> e"
  shows "e \<le> int n - 1022 \<Longrightarrow> binaryExponent n x = e"
proof (induction n)
  case 0
  with assms(3) show ?case by simp
next
  case (Suc n)
  let ?k = "int (Suc n) - 1022"
  show ?case
  proof (cases "2 powi ?k \<le> x")
    case True
    have "?k < e + 1"
    proof (rule ccontr)
      assume "\<not> ?k < e + 1"
      then have "e + 1 \<le> ?k" by simp
      then have "(2::real) powi (e + 1) \<le> 2 powi ?k"
        by (rule power_int_increasing) simp
      with True assms(2) show False by simp
    qed
    with Suc.prems have "?k = e" by simp
    with True show ?thesis by simp
  next
    case False
    have "e < ?k"
    proof (rule ccontr)
      assume "\<not> e < ?k"
      then have "?k \<le> e" by simp
      then have "(2::real) powi ?k \<le> 2 powi e"
        by (rule power_int_increasing) simp
      with False assms(1) show False by simp
    qed
    then have "e \<le> int n - 1022" by simp
    then have "binaryExponent n x = e" by (rule Suc.IH)
    with False show ?thesis by simp
  qed
qed

text \<open>
  The rounding of a positive number with a known exponent: the rule by which the products
  below are evaluated.
\<close>

lemma roundDouble_scaled:
  assumes "0 < x" and "2 ^ 52 \<le> x * 2 ^ m" and "x * 2 ^ m < 2 ^ 53" and "m \<le> 1074"
  shows "roundDouble x = of_int (roundHalfEven (x * 2 ^ m)) / 2 ^ m"
proof -
  have lo: "(2::real) powi (52 - int m) = 2 ^ 52 / 2 ^ m"
    by (simp add: power_int_diff)
  have hi: "(2::real) powi (53 - int m) = 2 ^ 53 / 2 ^ m"
    by (simp add: power_int_diff)
  have b: "2 ^ 52 / 2 ^ m \<le> x" "x < 2 ^ 53 / 2 ^ m"
    using assms(2,3) by (simp_all add: pos_divide_le_eq pos_less_divide_eq)
  have "binaryExponent 2045 x = 52 - int m"
    using b assms(4) by (intro binaryExponent_eq) (simp_all add: lo hi)
  then have e: "binaryExponent 2045 \<bar>x\<bar> = 52 - int m"
    using assms(1) by simp
  have u: "(2::real) powi (52 - int m - 52) = 1 / 2 ^ m"
    by (simp add: power_int_minus_divide)
  show ?thesis
    using assms(1) unfolding roundDouble_def Let_def e u by simp
qed

lemmas js_eval =
  jsAdd_def jsSub_def jsMul_def jsDiv_def roundHalfEven_def roundDouble_zero
  roundDouble_scaled[of _ 44] roundDouble_scaled[of _ 45] roundDouble_scaled[of _ 46]
  roundDouble_scaled[of _ 47] roundDouble_scaled[of _ 48] roundDouble_scaled[of _ 49]
  roundDouble_scaled[of _ 50] roundDouble_scaled[of _ 51] roundDouble_scaled[of _ 52]
  roundDouble_scaled[of _ 53] roundDouble_scaled[of _ 54] roundDouble_scaled[of _ 55]

section \<open>Properties of the scoring engine\<close>

lemma streakBonusFor_nonneg: "0 \<le> streakBonusFor n"
  by (simp add: streakBonusFor_def)

lemma multiplier_nonneg:
  assumes "1 \<le> l"
  shows "0 \<le> jsAdd 1 (jsMul (jsSub (of_int l) 1) (roundDouble 0.2))"
proof -
  have "(0::real) \<le> of_int l - 1"
    using assms by simp
  then have "0 \<le> jsSub (of_int l) 1"
    unfolding jsSub_def by (rule roundDouble_nonneg)
  moreover have "0 \<le> roundDouble 0.2"
    by (rule roundDouble_nonneg) simp
  ultimately have "0 \<le> jsSub (of_int l) 1 * roundDouble 0.2"
    by (rule mult_nonneg_nonneg)
  then have "0 \<le> jsMul (jsSub (of_int l) 1) (roundDouble 0.2)"
    unfolding jsMul_def by (rule roundDouble_nonneg)
  then have "0 \<le> 1 + jsMul (jsSub (of_int l) 1) (roundDouble 0.2)"
    by simp
  then show ?thesis
    unfolding jsAdd_def by (rule roundDouble_nonneg)
qed

lemma points_nonneg:
  fixes sb :: int
  assumes "1 \<le> l" and "0 \<le> sb"
  shows "0 \<le> \<lfloor>jsMul (of_int (100 + sb)) (jsAdd 1 (jsMul (jsSub (of_int l) 1) (roundDouble 0.2)))\<rfloor>"
proof -
  have "(0::real) \<le> of_int (100 + sb)"
    using assms(2) by simp
  then have "0 \<le> of_int (100 + sb) * jsAdd 1 (jsMul (jsSub (of_int l) 1) (roundDouble 0.2))"
    using multiplier_nonneg[OF assms(1)] by (rule mult_nonneg_nonneg)
  then have "0 \<le> jsMul (of_int (100 + sb)) (jsAdd 1 (jsMul (jsSub (of_int l) 1) (roundDouble 0.2)))"
    unfolding jsMul_def by (rule roundDouble_nonneg)
  then show ?thesis by simp
qed

lemma totalPoints_nonneg:
  "1 \<le> l \<Longrightarrow> 0 \<le> totalPoints (fst (calculateScore c t l s))"
  using points_nonneg[of l 50] points_nonneg[of l 0] streakBonusFor_nonneg[of "streak s + 1"]
  by (simp add: calculateScore_def Let_def)

lemma score_step:
  "score (snd (calculateScore c t l s)) = score s + totalPoints (fst (calculateScore c t l s))"
  by (simp add: calculateScore_def Let_def)

lemma calculateScore_fields:
  "streak (snd (calculateScore c t l s)) = (if c then streak s + 1 else 0)"
  "maxStreak (snd (calculateScore c t l s)) =
     (if c then max (maxStreak s) (streak s + 1) else maxStreak s)"
  "correctAnswers (snd (calculateScore c t l s)) =
     (if c then correctAnswers s + 1 else correctAnswers s)"
  "totalAnswers (snd (calculateScore c t l s)) = totalAnswers s + 1"
  by (simp_all add: calculateScore_def Let_def)

lemma streakBonus_correct:
  "streakBonus (fst (calculateScore True t l s)) = streakBonusFor (streak s + 1)"
  by (simp add: calculateScore_def Let_def)

text \<open>The levels of the difficulty tables, and the points they give.\<close>

lemma level_cases:
  fixes l :: int
  assumes "1 \<le> l" and "l \<le> 6"
  shows "l = 1 \<or> l = 2 \<or> l = 3 \<or> l = 4 \<or> l = 5 \<or> l = 6"
  using assms by arith

lemma multiplier_table:
  "jsAdd 1 (jsMul (jsSub 1 1) (roundDouble 0.2)) = 1"
  "jsAdd 1 (jsMul (jsSub 2 1) (roundDouble 0.2)) = 5404319552844595 / 4503599627370496"
  "jsAdd 1 (jsMul (jsSub 3 1) (roundDouble 0.2)) = 3152519739159347 / 2251799813685248"
  "jsAdd 1 (jsMul (jsSub 4 1) (roundDouble 0.2)) = 3602879701896397 / 2251799813685248"
  "jsAdd 1 (jsMul (jsSub 5 1) (roundDouble 0.2)) = 8106479329266893 / 4503599627370496"
  "jsAdd 1 (jsMul (jsSub 6 1) (roundDouble 0.2)) = 2"
  by (simp_all add: js_eval)

lemma points_table:
  fixes l :: int
  assumes "1 \<le> l" and "l \<le> 6" and "b = 100 \<or> b = 150"
  shows "\<lfloor>jsMul (of_int b) (jsAdd 1 (jsMul (jsSub (of_int l) 1) (roundDouble 0.2)))\<rfloor> =
         \<lfloor>of_int b * (1 + (of_int l - 1) * (0.2::real))\<rfloor>"
  using level_cases[OF assms(1,2)] assms(3)
  by (elim disjE) (simp_all add: multiplier_table, simp_all add: js_eval)

lemma countsInvariant_calculateScore:
  "countsInvariant s \<Longrightarrow> countsInvariant (snd (calculateScore c t l s))"
  by (simp add: countsInvariant_def calculateScore_fields)

lemma countsInvariant_reset: "countsInvariant (reset s)"
  by (simp add: countsInvariant_def reset_def)

lemma applyCalls_counts:
  "countsInvariant s \<Longrightarrow> countsInvariant (applyCalls calls s)"
proof (induction calls arbitrary: s)
  case Nil
  then show ?case by simp
next
  case (Cons c calls)
  have "countsInvariant (applyCall c s)"
    using Cons.prems by (cases c) (simp_all add: countsInvariant_calculateScore countsInvariant_reset)
  then show ?case using Cons.IH by simp
qed

lemma applyCalls_score:
  "list_all levelAtLeastOne calls \<Longrightarrow> 0 \<le> score s \<Longrightarrow> 0 \<le> score (applyCalls calls s)"
proof (induction calls arbitrary: s)
  case Nil
  then show ?case by simp
next
  case (Cons c calls)
  have "0 \<le> score (applyCall c s)"
  proof (cases c)
    case (Calculate k t l)
    then have "1 \<le> l"
      using Cons.prems(1) by simp
    then show ?thesis
      using totalPoints_nonneg[of l k t s] Cons.prems(2) by (simp add: Calculate score_step)
  next
    case Reset
    then show ?thesis by (simp add: reset_def)
  qed
  then show ?case using Cons by simp
qed

lemma correctRun_bonus5_once:
  "length (filter (\<lambda>r. streakBonus r = 200) (correctRun calls s))
     \<le> (if streak s < 5 then 1 else 0)"
proof (induction calls arbitrary: s)
  case Nil
  then show ?case by simp
next
  case (Cons c calls)
  obtain t l where c: "c = (t, l)" by (cases c)
  let ?s = "snd (calculateScore True t l s)"
  have "streak ?s = streak s + 1"
    by (simp add: calculateScore_fields)
  with Cons.IH[of ?s] show ?case
    by (auto simp add: c streakBonus_correct streakBonusFor_def split: if_splits)
qed

lemma correctRun_bonus10_once:
  "length (filter (\<lambda>r. streakBonus r = 500) (correctRun calls s))
     \<le> (if streak s < 10 then 1 else 0)"
proof (induction calls arbitrary: s)
  case Nil
  then show ?case by simp
next
  case (Cons c calls)
  obtain t l where c: "c = (t, l)" by (cases c)
  let ?s = "snd (calculateScore True t l s)"
  have "streak ?s = streak s + 1"
    by (simp add: calculateScore_fields)
  with Cons.IH[of ?s] show ?case
    by (auto simp add: c streakBonus_correct streakBonusFor_def split: if_splits)
qed

lemma calculateScore_correct_result:
  "fst (calculateScore True t l s) =
     \<lparr>basePoints = 100, speedBonus = (if t < 1000 then 50 else 0),
      streakBonus = streakBonusFor (streak s + 1),
      multiplier = jsAdd 1 (jsMul (jsSub (of_int l) 1) (roundDouble 0.2)),
      totalPoints =
        \<lfloor>jsMul (of_int (100 + (if t < 1000 then 50 else 0)))
           (jsAdd 1 (jsMul (jsSub (of_int l) 1) (roundDouble 0.2)))\<rfloor> +
        streakBonusFor (streak s + 1)\<rparr>"
  by (simp add: calculateScore_def Let_def)

lemma totalPoints_table:
  assumes "1 \<le> l" and "l \<le> 6"
  shows "totalPoints (fst (calculateScore True t l s)) =
     \<lfloor>of_int (100 + (if t < 1000 then 50 else 0)) * (1 + (of_int l - 1) * (0.2::real))\<rfloor> +
     streakBonusFor (streak s + 1)"
  using points_table[OF assms, of 100] points_table[OF assms, of 150]
  by (simp add: calculateScore_correct_result)

text \<open>
  Claim C3. A correct answer yields base points 100, speed bonus 50 exactly when the
  decision time is below 1000 ms, and the multiplier \<open>1 + (level - 1) * 0.2\<close>, computed
  in doubles. The streak bonus depends on the updated streak only: 200 at 5, 500 at 10, 300
  at every later multiple of 5 and 0 otherwise. So the 200 is paid exactly when the streak
  is 5 and the 500 exactly when it is 10: a longer streak does not pay them again, and in
  one unbroken run of correct answers each is paid at most once. The total is
  \<open>floor ((basePoints + speedBonus) * multiplier) + streakBonus\<close>, the product computed in
  doubles, and is added to the score. At the levels 1 to 6 of the difficulty tables the
  total is the one that exact arithmetic gives.
\<close>

theorem calculateScore_correct_points:
  "(let (r, s') = calculateScore True t l s in
      basePoints r = 100 \<and>
      speedBonus r = (if t < 1000 then 50 else 0) \<and>
      multiplier r = jsAdd 1 (jsMul (jsSub (of_int l) 1) (roundDouble 0.2)) \<and>
      streak s' = streak s + 1 \<and>
      streakBonus r =
        (if streak s' = 5 then 200
         else if streak s' = 10 then 500
         else if streak s' > 10 \<and> streak s' mod 5 = 0 then 300
         else 0) \<and>
      (streakBonus r = 200 \<longleftrightarrow> streak s' = 5) \<and>
      (streakBonus r = 500 \<longleftrightarrow> streak s' = 10) \<and>
      totalPoints r =
        \<lfloor>jsMul (of_int (basePoints r + speedBonus r)) (multiplier r)\<rfloor> + streakBonus r \<and>
      (1 \<le> l \<and> l \<le> 6 \<longrightarrow>
         totalPoints r =
           \<lfloor>of_int (basePoints r + speedBonus r) * (1 + (of_int l - 1) * (0.2::real))\<rfloor> +
           streakBonus r) \<and>
      score s' = score s + totalPoints r) \<and>
   length (filter (\<lambda>r. streakBonus r = 200) (correctRun calls s0)) \<le> 1 \<and>
   length (filter (\<lambda>r. streakBonus r = 500) (correctRun calls s0)) \<le> 1"
proof -
  let ?r = "fst (calculateScore True t l s)" and ?s = "snd (calculateScore True t l s)"
  have fields: "basePoints ?r = 100" "speedBonus ?r = (if t < 1000 then 50 else 0)"
      "multiplier ?r = jsAdd 1 (jsMul (jsSub (of_int l) 1) (roundDouble 0.2))"
      "streakBonus ?r = streakBonusFor (streak s + 1)"
      "totalPoints ?r = \<lfloor>jsMul (of_int (basePoints ?r + speedBonus ?r)) (multiplier ?r)\<rfloor> +
         streakBonus ?r"
    by (simp_all add: calculateScore_correct_result)
  have st: "streak ?s = streak s + 1"
    by (simp add: calculateScore_fields)
  have bonus: "streakBonus ?r =
        (if streak ?s = 5 then 200
         else if streak ?s = 10 then 500
         else if streak ?s > 10 \<and> streak ?s mod 5 = 0 then 300
         else 0)"
    by (simp add: fields(4) st streakBonusFor_def)
  have b200: "streakBonus ?r = 200 \<longleftrightarrow> streak ?s = 5"
    and b500: "streakBonus ?r = 500 \<longleftrightarrow> streak ?s = 10"
    by (simp_all add: bonus)
  have table: "1 \<le> l \<and> l \<le> 6 \<longrightarrow>
         totalPoints ?r =
           \<lfloor>of_int (basePoints ?r + speedBonus ?r) * (1 + (of_int l - 1) * (0.2::real))\<rfloor> +
           streakBonus ?r"
    using totalPoints_table[of l t s] by (simp add: fields(1,2,4))
  have sc: "score ?s = score s + totalPoints ?r"
    by (rule score_step)
  have five: "length (filter (\<lambda>r. streakBonus r = 200) (correctRun calls s0)) \<le> 1"
    using correctRun_bonus5_once[of calls s0] by (simp split: if_splits)
  have ten: "length (filter (\<lambda>r. streakBonus r = 500) (correctRun calls s0)) \<le> 1"
    using correctRun_bonus10_once[of calls s0] by (simp split: if_splits)
  from fields(1,2,3,5) st bonus b200 b500 table sc five ten show ?thesis
    by (simp only: case_prod_beta Let_def)
qed

theorem calculateScore_correct_points_witness:
  "(1::int) \<le> 6 \<and> (6::int) \<le> 6 \<and>
   calculateScore True 1500 6 newScoreSystem =
     (\<lparr>basePoints = 100, speedBonus = 0, streakBonus = 0, multiplier = 2, totalPoints = 200\<rparr>,
      \<lparr>score = 200, streak = 1, maxStreak = 1, correctAnswers = 1, totalAnswers = 1\<rparr>) \<and>
   calculateScore True 500 1 newScoreSystem =
     (\<lparr>basePoints = 100, speedBonus = 50, streakBonus = 0, multiplier = 1, totalPoints = 150\<rparr>,
      \<lparr>score = 150, streak = 1, maxStreak = 1, correctAnswers = 1, totalAnswers = 1\<rparr>)"
  using calculateScore_correct_points[of 1500 6 newScoreSystem "[]" newScoreSystem]
    calculateScore_correct_points[of 500 1 newScoreSystem "[]" newScoreSystem]
  by (simp add: calculateScore_def Let_def newScoreSystem_def streakBonusFor_def multiplier_table
      js_eval)

text \<open>
  Beyond the tables the rounding shows: at level 19 the multiplier is the double below
  \<open>4.6\<close>, the product is the double below 460, and the total is 459. The accuracy of 23
  correct answers out of 40 is 57: the quotient is the double below \<open>0.575\<close>.
\<close>

lemma totalPoints_level_19:
  "totalPoints (fst (calculateScore True 1500 19 newScoreSystem)) = 459"
  by (simp add: calculateScore_correct_result newScoreSystem_def streakBonusFor_def js_eval)

lemma getAccuracy_23_of_40:
  "getAccuracy \<lparr>score = 0, streak = 0, maxStreak = 0, correctAnswers = 23, totalAnswers = 40\<rparr> = 57"
  by (simp add: getAccuracy_def js_eval)

text \<open>
  The method does not check its level argument. At level \<open>-3\<close> a fast correct answer
  scores 29, where exact arithmetic gives 30; below level \<open>-4\<close> the multiplier is
  negative, and at level \<open>-9\<close> a fast correct answer takes 150 points off the score.
\<close>

lemma totalPoints_negative_level:
  "totalPoints (fst (calculateScore True 0 (-3) newScoreSystem)) = 29 \<and>
   multiplier (fst (calculateScore True 0 (-9) newScoreSystem)) = -1 \<and>
   score (snd (calculateScore True 0 (-9) newScoreSystem)) = -150"
  by (simp add: calculateScore_def Let_def newScoreSystem_def streakBonusFor_def js_eval
      roundDouble_minus)

text \<open>
  Claim C5, as amended. An incorrect answer, whatever the decision time and level, adds one
  to the answer count, sets the streak to 0, leaves score, correct count and best streak
  alone, and returns zero base points, speed bonus, streak bonus and total points, with
  multiplier 1.
\<close>

theorem calculateScore_incorrect:
  "(let (r, s') = calculateScore False t l s in
      totalAnswers s' = totalAnswers s + 1 \<and> streak s' = 0 \<and>
      score s' = score s \<and> correctAnswers s' = correctAnswers s \<and>
      maxStreak s' = maxStreak s \<and>
      basePoints r = 0 \<and> speedBonus r = 0 \<and> streakBonus r = 0 \<and> totalPoints r = 0 \<and>
      multiplier r = 1)"
  by (simp add: calculateScore_def)

text \<open>
  The claim as stated lists the multiplier among the fields that are zero; the code
  returns 1 there.
\<close>

theorem incorrect_multiplier_not_zero:
  "multiplier (fst (calculateScore False 500 1 newScoreSystem)) \<noteq> 0"
  by (simp add: calculateScore_def)

text \<open>
  Claim C10. After any sequence of \<open>calculateScore\<close> and \<open>reset\<close> calls on a fresh
  instance, whatever the levels, \<open>0 \<le> streak \<le> maxStreak\<close> and
  \<open>0 \<le> correctAnswers \<le> totalAnswers\<close>; and no single \<open>calculateScore\<close> call
  decreases best streak, correct count or answer count. The levels of the calls are those
  of the difficulty tables, 1 to 6: when every level of the sequence is at least 1 the
  score is not negative after it, and a call with such a level does not decrease the score.
\<close>

theorem score_state_invariant:
  "countsInvariant (applyCalls calls newScoreSystem) \<and>
   maxStreak s \<le> maxStreak (snd (calculateScore c t l s)) \<and>
   correctAnswers s \<le> correctAnswers (snd (calculateScore c t l s)) \<and>
   totalAnswers s \<le> totalAnswers (snd (calculateScore c t l s)) \<and>
   (list_all levelAtLeastOne calls \<longrightarrow> 0 \<le> score (applyCalls calls newScoreSystem)) \<and>
   (1 \<le> l \<longrightarrow> score s \<le> score (snd (calculateScore c t l s)))"
proof -
  have "countsInvariant newScoreSystem"
    by (simp add: countsInvariant_def newScoreSystem_def)
  then have counts: "countsInvariant (applyCalls calls newScoreSystem)"
    by (rule applyCalls_counts)
  have "0 \<le> score newScoreSystem"
    by (simp add: newScoreSystem_def)
  then have sc: "list_all levelAtLeastOne calls \<longrightarrow> 0 \<le> score (applyCalls calls newScoreSystem)"
    using applyCalls_score[of calls newScoreSystem] by blast
  have mono: "1 \<le> l \<longrightarrow> score s \<le> score (snd (calculateScore c t l s))"
    using totalPoints_nonneg[of l c t s] by (simp add: score_step)
  from counts sc mono show ?thesis
    by (simp add: calculateScore_fields)
qed

theorem score_state_invariant_witness:
  "(let calls = [Calculate True 500 1, Calculate False 1500 2, Reset, Calculate True 200 6];
       s = applyCalls calls newScoreSystem
   in list_all levelAtLeastOne calls \<and> (1::int) \<le> 3 \<and>
      countsInvariant s \<and> 0 \<le> score s \<and>
      s = \<lparr>score = 300, streak = 1, maxStreak = 1, correctAnswers = 1, totalAnswers = 1\<rparr> \<and>
      score s \<le> score (snd (calculateScore True 700 3 s)))"
  using score_state_invariant[of "[Calculate True 500 1, Calculate False 1500 2, Reset,
      Calculate True 200 6]" "applyCalls [Calculate True 500 1, Calculate False 1500 2, Reset,
      Calculate True 200 6] newScoreSystem" True 700 3]
  by (simp add: calculateScore_def reset_def newScoreSystem_def streakBonusFor_def
      countsInvariant_def Let_def multiplier_table js_eval)


section \<open>Properties of the difficulty controller\<close>

lemma update_distance_level:
  "0 \<le> d \<Longrightarrow> hskLevel (fst (update_distance d cur)) =
     (if d \<ge> 8000 then 6 else if d \<ge> 5000 then 5 else if d \<ge> 3000 then 4
      else if d \<ge> 1500 then 3 else if d \<ge> 500 then 2 else 1)"
  by (simp add: update_distance_def DIFFICULTY_THRESHOLDS_def Let_def)

lemma update_distance_negative: "d < 0 \<Longrightarrow> fst (update_distance d cur) = cur"
  by (simp add: update_distance_def DIFFICULTY_THRESHOLDS_def)

lemma nth_LEVEL_SETTINGS:
  assumes "0 \<le> i" and "i < 6"
  shows "hskLevel (LEVEL_SETTINGS ! nat i) = i + 1"
proof -
  from assms have "i = 0 \<or> i = 1 \<or> i = 2 \<or> i = 3 \<or> i = 4 \<or> i = 5"
    by arith
  then show ?thesis
    by (auto simp add: LEVEL_SETTINGS_def)
qed

lemma update_correct_level:
  assumes "0 \<le> c"
  shows "\<exists>r. update_correct c cur = Inr r \<and> hskLevel (fst r) = min 6 (\<lfloor>c / 50\<rfloor> + 1)"
proof -
  have f: "0 \<le> \<lfloor>c / 50\<rfloor>"
    using assms by simp
  let ?i = "min 6 (\<lfloor>c / 50\<rfloor> + 1) - 1"
  have i: "0 \<le> ?i" "?i < 6"
    using f by auto
  have len: "int (length LEVEL_SETTINGS) = 6"
    by (simp add: LEVEL_SETTINGS_def)
  have "\<not> (?i < 0 \<or> int (length LEVEL_SETTINGS) \<le> ?i)"
    using i len by linarith
  then show ?thesis
    using nth_LEVEL_SETTINGS[OF i]
    by (simp add: update_correct_def CORRECT_ANSWERS_PER_LEVEL_def Let_def)
qed

lemma update_correct_negative:
  assumes "c < 0"
  shows "update_correct c cur = Inl TypeError"
proof -
  from assms have "c / 50 < 0"
    by simp
  then have "\<lfloor>c / 50\<rfloor> < 0"
    by linarith
  then show ?thesis
    by (simp add: update_correct_def CORRECT_ANSWERS_PER_LEVEL_def Let_def)
qed

lemma update_distance_bound:
  "hskLevel cur \<le> 6 \<Longrightarrow> hskLevel (fst (update_distance s cur)) \<le> 6"
  by (cases "0 \<le> s") (simp_all add: update_distance_level update_distance_negative)

lemma updates_distance_bound:
  "hskLevel cur \<le> 6 \<Longrightarrow> hskLevel (updates_distance signals cur) \<le> 6"
  by (induction signals arbitrary: cur) (simp_all add: update_distance_bound)

lemma update_correct_bound:
  assumes "update_correct s cur = Inr r"
  shows "hskLevel (fst r) \<le> 6"
proof (cases "0 \<le> s")
  case True
  then show ?thesis
    using update_correct_level[OF True, of cur] assms by auto
next
  case False
  then show ?thesis
    using update_correct_negative[of s cur] assms by simp
qed

text \<open>
  Claim C7. For both difficulty variants the level resolved by \<open>update\<close> from one and
  the same controller state is non-decreasing in the signal, over the signals that are
  passed: the distance and the count of correct answers are not negative. The resolved level
  never exceeds 6, for any signal value at all: in the distance-gated variant after any
  sequence of updates of the initial controller, in the count-gated variant whenever the
  update returns.
\<close>

theorem difficulty_level_monotone:
  "(0 \<le> s1 \<and> s1 \<le> s2 \<longrightarrow>
      hskLevel (fst (update_distance s1 cur)) \<le> hskLevel (fst (update_distance s2 cur)) \<and>
      (\<exists>r1 r2. update_correct s1 cur = Inr r1 \<and> update_correct s2 cur = Inr r2 \<and>
         hskLevel (fst r1) \<le> hskLevel (fst r2))) \<and>
   hskLevel (fst (update_distance s (updates_distance signals initialSettings))) \<le> 6 \<and>
   (\<forall>r. update_correct s cur = Inr r \<longrightarrow> hskLevel (fst r) \<le> 6)"
proof -
  have mono: "hskLevel (fst (update_distance s1 cur)) \<le> hskLevel (fst (update_distance s2 cur)) \<and>
      (\<exists>r1 r2. update_correct s1 cur = Inr r1 \<and> update_correct s2 cur = Inr r2 \<and>
         hskLevel (fst r1) \<le> hskLevel (fst r2))"
    if s: "0 \<le> s1" "s1 \<le> s2"
  proof -
    from s have s2: "0 \<le> s2"
      by simp
    have dist: "hskLevel (fst (update_distance s1 cur)) \<le> hskLevel (fst (update_distance s2 cur))"
      using s by (simp add: update_distance_level s2)
    obtain r1 where r1: "update_correct s1 cur = Inr r1"
        "hskLevel (fst r1) = min 6 (\<lfloor>s1 / 50\<rfloor> + 1)"
      using update_correct_level[OF s(1), of cur] by blast
    obtain r2 where r2: "update_correct s2 cur = Inr r2"
        "hskLevel (fst r2) = min 6 (\<lfloor>s2 / 50\<rfloor> + 1)"
      using update_correct_level[OF s2, of cur] by blast
    have "\<lfloor>s1 / 50\<rfloor> \<le> \<lfloor>s2 / 50\<rfloor>"
      using s(2) by (intro floor_mono) simp
    then have "hskLevel (fst r1) \<le> hskLevel (fst r2)"
      using r1(2) r2(2) by simp
    with r1(1) r2(1) dist show ?thesis
      by blast
  qed
  have "hskLevel initialSettings \<le> 6"
    by (simp add: initialSettings_def)
  then have "hskLevel (updates_distance signals initialSettings) \<le> 6"
    by (rule updates_distance_bound)
  then have bound: "hskLevel (fst (update_distance s (updates_distance signals initialSettings))) \<le> 6"
    by (rule update_distance_bound)
  from mono bound show ?thesis
    using update_correct_bound[of s cur] by blast
qed

theorem difficulty_level_monotone_witness:
  "(0::real) \<le> 120 \<and> (120::real) \<le> 700 \<and>
   hskLevel (fst (update_distance 120 initialSettings)) = 1 \<and>
   hskLevel (fst (update_distance 700 initialSettings)) = 2 \<and>
   map_sum id (hskLevel \<circ> fst) (update_correct 120 initialSettings) = Inr 3 \<and>
   map_sum id (hskLevel \<circ> fst) (update_correct 700 initialSettings) = Inr 6 \<and>
   hskLevel (fst (update_distance (-1) (updates_distance [8000] initialSettings))) = 6"
  using difficulty_level_monotone[of 120 700 initialSettings "-1" "[8000]"]
  by (simp add: update_distance_level update_distance_negative update_correct_def
      CORRECT_ANSWERS_PER_LEVEL_def LEVEL_SETTINGS_def Let_def)



section \<open>Properties of the word selector\<close>

lemma randomIndex_less:
  assumes "unitInterval r" and "0 < n"
  shows "randomIndex r n < n"
proof -
  from assms have r: "0 \<le> r" "r < 1"
    by (simp_all add: unitInterval_def)
  have "r * real n < real n"
    using r(2) assms(2) by simp
  moreover have "0 \<le> r * real n"
    using r(1) by simp
  ultimately have "\<lfloor>r * real n\<rfloor> < int n"
    by linarith
  moreover have "0 \<le> \<lfloor>r * real n\<rfloor>"
    using \<open>0 \<le> r * real n\<close> by simp
  ultimately show ?thesis
    by (simp add: randomIndex_def nat_less_iff)
qed

lemma mset_shuffleFrom:
  assumes "\<forall>i. unitInterval (rnd i)"
  shows "k < length xs \<Longrightarrow> mset (shuffleFrom rnd k xs) = mset xs"
proof (induction k arbitrary: xs)
  case 0
  then show ?case by simp
next
  case (Suc k)
  let ?j = "randomIndex (rnd (Suc k)) (Suc k + 1)"
  have j: "?j < Suc k + 1"
    using assms by (intro randomIndex_less) simp_all
  with Suc.prems have jl: "?j < length xs"
    by simp
  let ?ys = "xs[Suc k := xs ! ?j, ?j := xs ! Suc k]"
  have "mset ?ys = mset xs"
    using Suc.prems jl by (simp add: mset_swap)
  moreover have "k < length ?ys"
    using Suc.prems by simp
  ultimately show ?case
    using Suc.IH[of ?ys] by (simp add: Let_def)
qed

lemma mset_shuffle:
  assumes "\<forall>i. unitInterval (rnd i)"
  shows "mset (shuffle rnd xs) = mset xs"
proof (cases xs)
  case Nil
  then show ?thesis by (simp add: shuffle_def)
next
  case (Cons x ys)
  then have "length xs - 1 < length xs" by simp
  then show ?thesis
    unfolding shuffle_def by (rule mset_shuffleFrom[OF assms])
qed

lemma set_shuffle:
  "\<forall>i. unitInterval (rnd i) \<Longrightarrow> set (shuffle rnd xs) = set xs"
  using mset_shuffle[of rnd xs] by (metis set_mset_mset)

lemma fill_subset: "set (fillDistractors ds ws) \<subseteq> set ds \<union> set ws"
  by (induction ds ws rule: fillDistractors.induct) auto

lemma fill_keeps: "set ds \<subseteq> set (fillDistractors ds ws)"
  by (induction ds ws rule: fillDistractors.induct) auto

lemma list_ex_target: "list_ex (\<lambda>d. target d = t) ds \<longleftrightarrow> t \<in> target ` set ds"
  by (auto simp add: list_ex_iff)

lemma fill_distinct:
  "distinct (map target ds) \<Longrightarrow> distinct (map target (fillDistractors ds ws))"
  by (induction ds ws rule: fillDistractors.induct) (simp_all add: list_ex_target)

lemma fill_length: "length ds \<le> 2 \<Longrightarrow> length (fillDistractors ds ws) \<le> 2"
  by (induction ds ws rule: fillDistractors.induct) auto

lemma fill_complete:
  "length (fillDistractors ds ws) < 2 \<Longrightarrow>
   target ` set ws \<subseteq> target ` set (fillDistractors ds ws)"
proof (induction ds ws rule: fillDistractors.induct)
  case (1 ds)
  then show ?case by simp
next
  case (2 ds w ws)
  show ?case
  proof (cases "length ds \<ge> 2")
    case True
    with "2.prems" show ?thesis by simp
  next
    case short: False
    show ?thesis
    proof (cases "list_ex (\<lambda>d. target d = target w) ds")
      case True
      then have r: "fillDistractors ds (w # ws) = fillDistractors ds ws"
        using short by simp
      from True have "target w \<in> target ` set ds"
        by (simp add: list_ex_target)
      then have "target w \<in> target ` set (fillDistractors ds ws)"
        using fill_keeps[of ds ws] by auto
      moreover have "target ` set ws \<subseteq> target ` set (fillDistractors ds ws)"
        using "2.IH"(2) short True "2.prems" r by simp
      ultimately show ?thesis
        using r by simp
    next
      case False
      then have r: "fillDistractors ds (w # ws) = fillDistractors (ds @ [w]) ws"
        using short by simp
      have "w \<in> set (fillDistractors (ds @ [w]) ws)"
        using fill_keeps[of "ds @ [w]" ws] by auto
      moreover have "target ` set ws \<subseteq> target ` set (fillDistractors (ds @ [w]) ws)"
        using "2.IH"(1) short False "2.prems" r by simp
      ultimately show ?thesis
        using r by auto
    qed
  qed
qed

lemma getDistractors_from_pool:
  assumes "validDraws d"
  shows "set (getDistractors cw pool d) \<subseteq> {w \<in> set pool. target w \<noteq> target cw}"
proof -
  have sc: "\<forall>i. unitInterval (shuffleCategory d i)" and sp: "\<forall>i. unitInterval (shufflePool d i)"
    using assms by (simp_all add: validDraws_def)
  let ?C = "shuffle (shuffleCategory d)
      (filter (\<lambda>w. category w = category cw \<and> target w \<noteq> target cw) pool)"
  let ?P = "shuffle (shufflePool d) (filter (\<lambda>w. target w \<noteq> target cw) pool)"
  have "set (getDistractors cw pool d) \<subseteq> set ?C \<union> set ?P"
    using fill_subset[of "fillDistractors [] ?C" ?P] fill_subset[of "[]" ?C]
    by (auto simp add: getDistractors_def Let_def)
  then show ?thesis
    by (auto simp add: set_shuffle[OF sc] set_shuffle[OF sp])
qed

lemma getDistractors_distinct: "distinct (map target (getDistractors cw pool d))"
  by (simp add: getDistractors_def Let_def fill_distinct)

lemma getDistractors_length_le: "length (getDistractors cw pool d) \<le> 2"
  by (simp add: getDistractors_def Let_def fill_length)

lemma getDistractors_two:
  assumes "validDraws d"
    and "a \<in> set pool" and "b \<in> set pool"
    and "target a \<noteq> target cw" and "target b \<noteq> target cw" and "target a \<noteq> target b"
  shows "length (getDistractors cw pool d) = 2"
proof (rule ccontr)
  assume "length (getDistractors cw pool d) \<noteq> 2"
  with getDistractors_length_le[of cw pool d] have short: "length (getDistractors cw pool d) < 2"
    by simp
  have sp: "\<forall>i. unitInterval (shufflePool d i)"
    using assms(1) by (simp add: validDraws_def)
  let ?C = "shuffle (shuffleCategory d)
      (filter (\<lambda>w. category w = category cw \<and> target w \<noteq> target cw) pool)"
  let ?P = "shuffle (shufflePool d) (filter (\<lambda>w. target w \<noteq> target cw) pool)"
  have eq: "getDistractors cw pool d = fillDistractors (fillDistractors [] ?C) ?P"
    by (simp add: getDistractors_def Let_def)
  have "target ` set ?P \<subseteq> target ` set (getDistractors cw pool d)"
    using fill_complete[of "fillDistractors [] ?C" ?P] short eq by simp
  moreover have "a \<in> set ?P" "b \<in> set ?P"
    using assms by (simp_all add: set_shuffle[OF sp])
  ultimately have "target a \<in> target ` set (getDistractors cw pool d)"
      "target b \<in> target ` set (getDistractors cw pool d)"
    by auto
  then have "{target a, target b} \<subseteq> set (map target (getDistractors cw pool d))"
    by simp
  then have "card {target a, target b} \<le> card (set (map target (getDistractors cw pool d)))"
    by (intro card_mono) simp_all
  also have "\<dots> \<le> length (getDistractors cw pool d)"
    using card_length[of "map target (getDistractors cw pool d)"] by simp
  finally show False
    using short assms(6) by simp
qed

lemma arrayAt_randomIndex:
  assumes "unitInterval r" and "xs \<noteq> []"
  shows "\<exists>x. arrayAt xs (randomIndex r (length xs)) = Some x \<and> x \<in> set xs"
  using randomIndex_less[OF assms(1), of "length xs"] assms(2)
  by (simp add: arrayAt_def)

lemma arrayAt_Some: "arrayAt xs i = Some x \<Longrightarrow> x \<in> set xs"
  by (auto simp add: arrayAt_def split: if_splits)

lemma pickCorrectWord_Some:
  assumes "validDraws d" and "words \<noteq> []"
  shows "\<exists>cw. pickCorrectWord words recent d = Some cw \<and> cw \<in> set words \<and>
           (filter (\<lambda>w. target w \<notin> set recent) words \<noteq> [] \<longrightarrow> target cw \<notin> set recent)"
proof -
  let ?av = "filter (\<lambda>w. target w \<notin> set recent) words"
  have av: "?av = filter (\<lambda>w. target w \<notin> set recent) words"
    by simp
  have u: "unitInterval (pickAvailable d)" "unitInterval (pickAny d)"
    using assms(1) by (simp_all add: validDraws_def)
  show ?thesis
  proof (cases "?av = []")
    case True
    then have "arrayAt ?av (randomIndex (pickAvailable d) (length ?av)) = None"
      by (simp add: arrayAt_def)
    moreover obtain x where "arrayAt words (randomIndex (pickAny d) (length words)) = Some x"
        "x \<in> set words"
      using arrayAt_randomIndex[OF u(2) assms(2)] by blast
    ultimately show ?thesis
      using True av by (simp add: pickCorrectWord_def Let_def)
  next
    case False
    then obtain x where x: "arrayAt ?av (randomIndex (pickAvailable d) (length ?av)) = Some x"
        "x \<in> set ?av"
      using arrayAt_randomIndex[OF u(1)] by blast
    from x(2) have "x \<in> set words" "target x \<notin> set recent"
      by simp_all
    with x(1) show ?thesis
      by (simp add: pickCorrectWord_def Let_def)
  qed
qed

lemma laneOptions_two:
  "laneOptions 0 cw [d1, d2] =
     [\<lparr>lane = Left, word = Some cw\<rparr>, \<lparr>lane = Center, word = Some d1\<rparr>,
      \<lparr>lane = Right, word = Some d2\<rparr>]"
  "laneOptions (Suc 0) cw [d1, d2] =
     [\<lparr>lane = Left, word = Some d1\<rparr>, \<lparr>lane = Center, word = Some cw\<rparr>,
      \<lparr>lane = Right, word = Some d2\<rparr>]"
  "laneOptions 2 cw [d1, d2] =
     [\<lparr>lane = Left, word = Some d1\<rparr>, \<lparr>lane = Center, word = Some d2\<rparr>,
      \<lparr>lane = Right, word = Some cw\<rparr>]"
  by (simp_all add: laneOptions_def addOption_def lanes_def arrayAt_def numeral_3_eq_3)

lemma randomIndex_three:
  "unitInterval r \<Longrightarrow> randomIndex r 3 = 0 \<or> randomIndex r 3 = 1 \<or> randomIndex r 3 = 2"
  using randomIndex_less[of r 3] by auto


lemma validDraws_sample: "validDraws sampleDraws"
  by (simp add: validDraws_def sampleDraws_def unitInterval_def)

lemma card_largePool: "card (target ` set largePool) = 21"
proof -
  have "target ` set largePool = (\<lambda>n. replicate n CHR ''a'') ` {0..<21}"
    by (auto simp add: largePool_def sampleWord_def image_iff)
  moreover have "inj_on (\<lambda>n. replicate n CHR ''a'') {0..<21}"
    by (metis inj_on_inverseI length_replicate)
  ultimately show ?thesis
    by (simp add: card_image)
qed

lemma two_others:
  assumes "a \<in> set pool" "b \<in> set pool" "c \<in> set pool"
    and "target a \<noteq> target b" "target a \<noteq> target c" "target b \<noteq> target c"
  shows "\<exists>x y. x \<in> set pool \<and> y \<in> set pool \<and> target x \<noteq> target cw \<and>
           target y \<noteq> target cw \<and> target x \<noteq> target y"
proof (cases "target a = target cw")
  case True
  with assms have "target b \<noteq> target cw" "target c \<noteq> target cw" by auto
  with assms show ?thesis by blast
next
  case False
  show ?thesis
  proof (cases "target b = target cw")
    case True
    with assms have "target c \<noteq> target cw" by auto
    with False assms show ?thesis by blast
  next
    case nb: False
    with False assms show ?thesis by blast
  qed
qed

text \<open>
  Claim C1. When the candidate pool holds three words with pairwise distinct target texts
  (and every draw is a number of \<open>[0, 1)\<close>, as \<open>Math.random()\<close> returns),
  \<open>generateQuestion\<close> returns a question with exactly three options on the lanes left,
  center and right in this order; exactly one option holds the correct word, and its lane
  is \<open>correctLane\<close>; the two other options hold words whose target texts differ from the
  correct word's and from each other.
\<close>

theorem generateQuestion_wellformed:
  assumes "validDraws d"
    and "a \<in> set (candidateWords tbl wm level)"
    and "b \<in> set (candidateWords tbl wm level)"
    and "c \<in> set (candidateWords tbl wm level)"
    and "target a \<noteq> target b" and "target a \<noteq> target c" and "target b \<noteq> target c"
  shows "\<exists>q wm'. generateQuestion tbl level d wm = Inr (q, wm') \<and>
           length (options q) = 3 \<and>
           map lane (options q) = [Left, Center, Right] \<and>
           filter (\<lambda>opt. word opt = Some (correctWord q)) (options q) =
             [\<lparr>lane = correctLane q, word = Some (correctWord q)\<rparr>] \<and>
           (\<exists>d1 d2. map word (filter (\<lambda>opt. word opt \<noteq> Some (correctWord q)) (options q)) =
                [Some d1, Some d2] \<and>
              target d1 \<noteq> target (correctWord q) \<and> target d2 \<noteq> target (correctWord q) \<and>
              target d1 \<noteq> target d2)"
proof -
  let ?words = "candidateWords tbl wm level"
  have ne: "?words \<noteq> []"
    using assms(2) by auto
  obtain cw where cw: "pickCorrectWord ?words (recentWords wm) d = Some cw"
    using pickCorrectWord_Some[OF assms(1) ne] by blast
  obtain x y where xy: "x \<in> set ?words" "y \<in> set ?words" "target x \<noteq> target cw"
      "target y \<noteq> target cw" "target x \<noteq> target y"
    using two_others[OF assms(2-7), of cw] by blast
  let ?ds = "getDistractors cw ?words d"
  have "length ?ds = 2"
    using getDistractors_two[OF assms(1) xy] .
  then obtain d1 d2 where ds: "?ds = [d1, d2]"
    by (auto simp add: length_Suc_conv numeral_2_eq_2)
  have "set ?ds \<subseteq> {w \<in> set ?words. target w \<noteq> target cw}"
    using getDistractors_from_pool[OF assms(1)] .
  then have dcw: "target d1 \<noteq> target cw" "target d2 \<noteq> target cw"
    using ds by auto
  have "distinct (map target ?ds)"
    by (rule getDistractors_distinct)
  then have d12: "target d1 \<noteq> target d2"
    using ds by simp
  from dcw have neq: "d1 \<noteq> cw" "d2 \<noteq> cw"
    by auto
  have u: "unitInterval (pickLane d)"
    using assms(1) by (simp add: validDraws_def)
  let ?q = "\<lparr>correctWord = cw, options = laneOptions (randomIndex (pickLane d) 3) cw [d1, d2],
      correctLane = lanes ! randomIndex (pickLane d) 3,
      mode = (if pickMode d < 0.5 then EnglishToTarget else TargetToEnglish)\<rparr>"
  let ?wm = "wm\<lparr>recentWords := pushRecent (target cw) (recentWords wm)\<rparr>"
  have gen: "generateQuestion tbl level d wm = Inr (?q, ?wm)"
    using cw ds by (simp add: generateQuestion_def Let_def)
  have props: "length (options ?q) = 3 \<and>
      map lane (options ?q) = [Left, Center, Right] \<and>
      filter (\<lambda>opt. word opt = Some (correctWord ?q)) (options ?q) =
        [\<lparr>lane = correctLane ?q, word = Some (correctWord ?q)\<rparr>] \<and>
      map word (filter (\<lambda>opt. word opt \<noteq> Some (correctWord ?q)) (options ?q)) =
        [Some d1, Some d2]"
    using randomIndex_three[OF u] neq
    by (auto simp add: laneOptions_two lanes_def)
  show ?thesis
    using gen props dcw d12 by (intro exI[of _ ?q] exI[of _ ?wm]) auto
qed

theorem generateQuestion_wellformed_witness:
  "validDraws sampleDraws \<and>
   sampleWord ''a'' ''x'' \<in> set (candidateWords (\<lambda>_. samplePool) newWordManager 1) \<and>
   sampleWord ''b'' ''y'' \<in> set (candidateWords (\<lambda>_. samplePool) newWordManager 1) \<and>
   sampleWord ''c'' ''x'' \<in> set (candidateWords (\<lambda>_. samplePool) newWordManager 1) \<and>
   target (sampleWord ''a'' ''x'') \<noteq> target (sampleWord ''b'' ''y'') \<and>
   target (sampleWord ''a'' ''x'') \<noteq> target (sampleWord ''c'' ''x'') \<and>
   target (sampleWord ''b'' ''y'') \<noteq> target (sampleWord ''c'' ''x'') \<and>
   generateQuestion (\<lambda>_. samplePool) 1 sampleDraws newWordManager =
     Inr (\<lparr>correctWord = sampleWord ''b'' ''y'',
            options = [\<lparr>lane = Left, word = Some (sampleWord ''d'' ''y'')\<rparr>,
                       \<lparr>lane = Center, word = Some (sampleWord ''b'' ''y'')\<rparr>,
                       \<lparr>lane = Right, word = Some (sampleWord ''a'' ''x'')\<rparr>],
            correctLane = Center, mode = TargetToEnglish\<rparr>,
          \<lparr>recentWords = [''b''], customWords = None\<rparr>)"
  using generateQuestion_wellformed[of sampleDraws "sampleWord ''a'' ''x''" "\<lambda>_. samplePool"
      newWordManager 1 "sampleWord ''b'' ''y''" "sampleWord ''c'' ''x''"] validDraws_sample
  by (simp add: generateQuestion_def candidateWords_def getAvailableWords_def
      newWordManager_def pickCorrectWord_def arrayAt_def randomIndex_def samplePool_def
      sampleDraws_def sampleWord_def getDistractors_def shuffle_def laneOptions_def
      addOption_def lanes_def numeral_3_eq_3 pushRecent_def maxRecentWords_def Let_def)

lemma getDistractors_few:
  assumes "validDraws d" and "cw \<in> set pool" and "card (target ` set pool) < 3"
  shows "length (getDistractors cw pool d) < 2"
proof -
  let ?ds = "getDistractors cw pool d"
  have "card (set (map target ?ds)) = length (map target ?ds)"
    using getDistractors_distinct[of cw pool d] by (rule distinct_card)
  then have "length ?ds = card (set (map target ?ds))"
    by simp
  also have "set (map target ?ds) \<subseteq> target ` set pool - {target cw}"
    using getDistractors_from_pool[OF assms(1), of cw pool] by auto
  then have "card (set (map target ?ds)) \<le> card (target ` set pool - {target cw})"
    by (intro card_mono) simp_all
  also have "\<dots> = card (target ` set pool) - 1"
    using assms(2) by simp
  finally show ?thesis
    using assms(3) by simp
qed

lemma laneOptions_short:
  assumes "length ds < 2" and "i < 3"
  shows "length (laneOptions i cw ds) = 3 \<and> list_ex (\<lambda>opt. word opt = None) (laneOptions i cw ds)"
proof -
  from assms(1) consider "ds = []" | x where "ds = [x]"
    by (cases ds) (auto simp add: length_Suc_conv)
  moreover from assms(2) have "i = 0 \<or> i = Suc 0 \<or> i = 2"
    by auto
  ultimately show ?thesis
    by cases (auto simp add: laneOptions_def addOption_def lanes_def arrayAt_def numeral_3_eq_3)
qed

text \<open>
  Claim C9 against the code. With a non-empty candidate pool of fewer than three distinct
  target texts \<open>generateQuestion\<close> returns and finds fewer than two distractors, but it
  still builds three options: an option that is not the correct word reads the distractor
  array past its end and holds \<open>undefined\<close>. A custom deck of one word, which the import
  accepts, gives two such options.
\<close>

theorem few_words_undefined_option:
  assumes "validDraws d"
    and "candidateWords tbl wm level \<noteq> []"
    and "card (target ` set (candidateWords tbl wm level)) < 3"
  shows "\<exists>q wm'. generateQuestion tbl level d wm = Inr (q, wm') \<and>
           length (getDistractors (correctWord q) (candidateWords tbl wm level) d) < 2 \<and>
           length (options q) = 3 \<and>
           list_ex (\<lambda>opt. word opt = None) (options q)"
proof -
  let ?words = "candidateWords tbl wm level"
  obtain cw where cw: "pickCorrectWord ?words (recentWords wm) d = Some cw" "cw \<in> set ?words"
    using pickCorrectWord_Some[OF assms(1,2)] by blast
  have few: "length (getDistractors cw ?words d) < 2"
    using assms(1) cw(2) assms(3) by (rule getDistractors_few)
  have "unitInterval (pickLane d)"
    using assms(1) by (simp add: validDraws_def)
  then have "randomIndex (pickLane d) 3 < 3"
    by (intro randomIndex_less) simp_all
  with few have "length (laneOptions (randomIndex (pickLane d) 3) cw (getDistractors cw ?words d)) = 3 \<and>
      list_ex (\<lambda>opt. word opt = None)
        (laneOptions (randomIndex (pickLane d) 3) cw (getDistractors cw ?words d))"
    by (rule laneOptions_short)
  with cw(1) few show ?thesis
    by (simp add: generateQuestion_def Let_def)
qed

theorem single_word_deck_undefined_options:
  "validDraws sampleDraws \<and>
   candidateWords (\<lambda>_. []) (setCustomWords [sampleWord ''a'' ''x''] newWordManager) 1 \<noteq> [] \<and>
   card (target ` set (candidateWords (\<lambda>_. [])
      (setCustomWords [sampleWord ''a'' ''x''] newWordManager) 1)) < 3 \<and>
   generateQuestion (\<lambda>_. []) 1 sampleDraws
      (setCustomWords [sampleWord ''a'' ''x''] newWordManager) =
     Inr (\<lparr>correctWord = sampleWord ''a'' ''x'',
            options = [\<lparr>lane = Left, word = None\<rparr>,
                       \<lparr>lane = Center, word = Some (sampleWord ''a'' ''x'')\<rparr>,
                       \<lparr>lane = Right, word = None\<rparr>],
            correctLane = Center, mode = TargetToEnglish\<rparr>,
          \<lparr>recentWords = [''a''], customWords = Some [sampleWord ''a'' ''x'']\<rparr>)"
  using few_words_undefined_option[of sampleDraws "\<lambda>_. []"
      "setCustomWords [sampleWord ''a'' ''x''] newWordManager" 1] validDraws_sample
  by (simp add: generateQuestion_def candidateWords_def newWordManager_def setCustomWords_def
      pickCorrectWord_def arrayAt_def randomIndex_def sampleDraws_def sampleWord_def
      getDistractors_def shuffle_def laneOptions_def addOption_def lanes_def numeral_3_eq_3
      pushRecent_def maxRecentWords_def Let_def)

lemma lastN_rev: "lastN n xs = rev (take n (rev xs))"
  by (simp add: lastN_def take_rev)

lemma pushRecent_lastN:
  assumes "length r \<le> 20"
  shows "pushRecent t r = lastN 20 (r @ [t])"
proof (cases "length r = 20")
  case True
  then have "lastN 20 (r @ [t]) = drop 1 (r @ [t])"
    by (simp add: lastN_def)
  moreover from True have "r \<noteq> []"
    by auto
  ultimately show ?thesis
    using True by (simp add: pushRecent_def maxRecentWords_def Let_def drop_Suc)
next
  case False
  with assms show ?thesis
    by (simp add: pushRecent_def maxRecentWords_def Let_def lastN_def)
qed

lemma length_pushRecent: "length r \<le> 20 \<Longrightarrow> length (pushRecent t r) \<le> 20"
  by (auto simp add: pushRecent_def maxRecentWords_def Let_def)

lemma lastN_lastN: "m \<le> n \<Longrightarrow> lastN m (lastN n xs) = lastN m xs"
  by (simp add: lastN_rev min_def)

lemma lastN_snoc: "lastN (Suc a) (xs @ [x]) = lastN a xs @ [x]"
  by (simp add: lastN_rev)

lemma lastN_append_left: "lastN n (lastN n xs @ ys) = lastN n (xs @ ys)"
  by (simp add: lastN_rev min_def)

lemma lastN_push:
  assumes "length r \<le> 20" and "a < 20"
  shows "lastN (Suc a) (pushRecent t r) = lastN a r @ [t]"
  using assms by (simp add: pushRecent_lastN lastN_lastN lastN_snoc)

lemma set_lastN: "set (lastN a xs) \<subseteq> set xs"
  by (simp add: lastN_def set_drop_subset)

lemma fresh_excludes:
  "freshPicks r cs \<Longrightarrow> length r \<le> 20 \<Longrightarrow> a \<le> 20 \<Longrightarrow>
   set (lastN a r) \<inter> set (take (21 - a) cs) = {}"
proof (induction cs arbitrary: r a)
  case Nil
  then show ?case by simp
next
  case (Cons c cs)
  from Cons.prems(1) have c: "c \<notin> set r" and f: "freshPicks (pushRecent c r) cs"
    by simp_all
  from c have cl: "c \<notin> set (lastN a r)"
    using set_lastN[of a r] by auto
  show ?case
  proof (cases "a = 20")
    case True
    then show ?thesis using cl by simp
  next
    case False
    with Cons.prems(3) have a: "a < 20" by simp
    then have t: "take (21 - a) (c # cs) = c # take (21 - Suc a) cs"
      by (simp add: take_Cons')
    have "set (lastN (Suc a) (pushRecent c r)) \<inter> set (take (21 - Suc a) cs) = {}"
      using Cons.IH[OF f length_pushRecent[OF Cons.prems(2)], of "Suc a"] a by simp
    then have "set (lastN a r) \<inter> set (take (21 - Suc a) cs) = {}"
      by (auto simp add: lastN_push[OF Cons.prems(2) a])
    with cl t show ?thesis by simp
  qed
qed

lemma fresh_distinct21:
  "freshPicks r cs \<Longrightarrow> length r \<le> 20 \<Longrightarrow> distinct (take 21 cs)"
proof (induction cs arbitrary: r)
  case Nil
  then show ?case by simp
next
  case (Cons c cs)
  from Cons.prems(1) have f: "freshPicks (pushRecent c r) cs"
    by simp
  have l: "length (pushRecent c r) \<le> 20"
    using Cons.prems(2) by (rule length_pushRecent)
  have "distinct (take 21 cs)"
    using Cons.IH[OF f l] .
  then have "distinct (take 20 (take 21 cs))"
    by (rule distinct_take)
  then have d: "distinct (take 20 cs)"
    by simp
  have "set (lastN (Suc 0) (pushRecent c r)) \<inter> set (take (21 - Suc 0) cs) = {}"
    using fresh_excludes[OF f l, of "Suc 0"] by simp
  moreover have "lastN (Suc 0) (pushRecent c r) = [c]"
    using lastN_push[OF Cons.prems(2), of 0 c] by (simp add: lastN_def)
  ultimately have "c \<notin> set (take 20 cs)"
    by simp
  with d show ?case
    by (simp add: take_Cons')
qed

lemma fresh_drop:
  "freshPicks r cs \<Longrightarrow> length r \<le> 20 \<Longrightarrow>
   \<exists>r'. freshPicks r' (drop k cs) \<and> length r' \<le> 20"
proof (induction k arbitrary: r cs)
  case 0
  then show ?case by auto
next
  case (Suc k)
  show ?case
  proof (cases cs)
    case Nil
    then show ?thesis using Suc.prems by auto
  next
    case (Cons c cs')
    with Suc.prems have "freshPicks (pushRecent c r) cs'" "length (pushRecent c r) \<le> 20"
      by (simp_all add: length_pushRecent)
    from Suc.IH[OF this] Cons show ?thesis by simp
  qed
qed

lemma fresh_window:
  assumes "freshPicks r cs" and "length r \<le> 20"
  shows "distinct (take 20 (drop k cs))"
proof -
  obtain r' where "freshPicks r' (drop k cs)" "length r' \<le> 20"
    using fresh_drop[OF assms] by blast
  then have "distinct (take 21 (drop k cs))"
    by (rule fresh_distinct21)
  then have "distinct (take 20 (take 21 (drop k cs)))"
    by (rule distinct_take)
  then show ?thesis by simp
qed

lemma pushAll_lastN:
  "length r \<le> 20 \<Longrightarrow> foldl (\<lambda>r t. pushRecent t r) r cs = lastN 20 (r @ cs)"
proof (induction cs arbitrary: r)
  case Nil
  then show ?case by (simp add: lastN_def)
next
  case (Cons c cs)
  have p: "pushRecent c r = lastN 20 (r @ [c])"
    using Cons.prems by (rule pushRecent_lastN)
  have "foldl (\<lambda>r t. pushRecent t r) r (c # cs) = foldl (\<lambda>r t. pushRecent t r) (pushRecent c r) cs"
    by simp
  also have "\<dots> = lastN 20 (pushRecent c r @ cs)"
    using Cons.IH[OF length_pushRecent[OF Cons.prems]] .
  also have "\<dots> = lastN 20 (lastN 20 (r @ [c]) @ cs)"
    by (simp only: p)
  also have "\<dots> = lastN 20 ((r @ [c]) @ cs)"
    by (rule lastN_append_left)
  finally show ?case by simp
qed

lemma available_nonempty:
  assumes "21 \<le> card (target ` set pool)" and "length recent \<le> 20"
  shows "filter (\<lambda>w. target w \<notin> set recent) pool \<noteq> []"
proof
  assume "filter (\<lambda>w. target w \<notin> set recent) pool = []"
  then have "target ` set pool \<subseteq> set recent"
    by (auto simp add: filter_empty_conv)
  then have "card (target ` set pool) \<le> card (set recent)"
    by (intro card_mono) simp_all
  also have "\<dots> \<le> length recent"
    by (rule card_length)
  finally show False
    using assms by simp
qed

lemma candidateWords_cong:
  "customWords wm1 = customWords wm \<Longrightarrow> candidateWords tbl wm1 level = candidateWords tbl wm level"
  by (simp add: candidateWords_def)

lemma generateQuestion_fresh:
  assumes "validDraws d" and "21 \<le> card (target ` set (candidateWords tbl wm level))"
    and "length (recentWords wm) \<le> 20"
  shows "\<exists>q wm'. generateQuestion tbl level d wm = Inr (q, wm') \<and>
           target (correctWord q) \<notin> set (recentWords wm) \<and>
           recentWords wm' = pushRecent (target (correctWord q)) (recentWords wm) \<and>
           customWords wm' = customWords wm"
proof -
  let ?words = "candidateWords tbl wm level"
  have "?words \<noteq> []"
    using assms(2) by auto
  moreover have "filter (\<lambda>w. target w \<notin> set (recentWords wm)) ?words \<noteq> []"
    using assms(2,3) by (rule available_nonempty)
  ultimately obtain cw where cw: "pickCorrectWord ?words (recentWords wm) d = Some cw"
      "target cw \<notin> set (recentWords wm)"
    using pickCorrectWord_Some[OF assms(1), of ?words "recentWords wm"] by blast
  then show ?thesis
    by (simp add: generateQuestion_def Let_def)
qed

lemma generateQuestions_fresh:
  assumes "21 \<le> card (target ` set pool)"
  shows "list_all (\<lambda>(level, d). validDraws d \<and> candidateWords tbl wm level = pool) calls \<Longrightarrow>
     length (recentWords wm) \<le> 20 \<Longrightarrow>
     \<exists>qs wm'. generateQuestions tbl calls wm = Inr (qs, wm') \<and> length qs = length calls \<and>
       freshPicks (recentWords wm) (map (\<lambda>q. target (correctWord q)) qs) \<and>
       recentWords wm' =
         foldl (\<lambda>r t. pushRecent t r) (recentWords wm) (map (\<lambda>q. target (correctWord q)) qs)"
proof (induction calls arbitrary: wm)
  case Nil
  then show ?case by simp
next
  case (Cons call calls)
  obtain level d where call: "call = (level, d)"
    by (cases call)
  from Cons.prems(1) call have d: "validDraws d" and pool: "candidateWords tbl wm level = pool"
    and rest: "list_all (\<lambda>(level, d). validDraws d \<and> candidateWords tbl wm level = pool) calls"
    by simp_all
  obtain q wm1 where q: "generateQuestion tbl level d wm = Inr (q, wm1)"
      "target (correctWord q) \<notin> set (recentWords wm)"
      "recentWords wm1 = pushRecent (target (correctWord q)) (recentWords wm)"
      "customWords wm1 = customWords wm"
    using generateQuestion_fresh[OF d, of tbl wm level] assms pool Cons.prems(2) by auto
  have rest1: "list_all (\<lambda>(level, d). validDraws d \<and> candidateWords tbl wm1 level = pool) calls"
    using rest by (simp add: candidateWords_cong[OF q(4)])
  have len1: "length (recentWords wm1) \<le> 20"
    using q(3) Cons.prems(2) by (simp add: length_pushRecent)
  obtain qs wm2 where qs: "generateQuestions tbl calls wm1 = Inr (qs, wm2)"
      "length qs = length calls"
      "freshPicks (recentWords wm1) (map (\<lambda>q. target (correctWord q)) qs)"
      "recentWords wm2 =
         foldl (\<lambda>r t. pushRecent t r) (recentWords wm1) (map (\<lambda>q. target (correctWord q)) qs)"
    using Cons.IH[OF rest1 len1] by blast
  have "generateQuestions tbl (call # calls) wm = Inr (q # qs, wm2)"
    using call q(1) qs(1) by simp
  then show ?case
    using qs(2,3,4) q(2,3) by simp
qed

lemma generateQuestion_buffer:
  assumes "validDraws d" and "candidateWords tbl wm level \<noteq> []"
  shows "\<exists>q wm'. generateQuestion tbl level d wm = Inr (q, wm') \<and>
           recentWords wm' = pushRecent (target (correctWord q)) (recentWords wm) \<and>
           customWords wm' = customWords wm"
proof -
  obtain cw where "pickCorrectWord (candidateWords tbl wm level) (recentWords wm) d = Some cw"
    using pickCorrectWord_Some[OF assms] by blast
  then show ?thesis
    by (simp add: generateQuestion_def Let_def)
qed

lemma generateQuestions_buffer:
  assumes "pool \<noteq> []"
  shows "list_all (\<lambda>(level, d). validDraws d \<and> candidateWords tbl wm level = pool) calls \<Longrightarrow>
     \<exists>qs wm'. generateQuestions tbl calls wm = Inr (qs, wm') \<and> length qs = length calls \<and>
       recentWords wm' =
         foldl (\<lambda>r t. pushRecent t r) (recentWords wm) (map (\<lambda>q. target (correctWord q)) qs)"
proof (induction calls arbitrary: wm)
  case Nil
  then show ?case by simp
next
  case (Cons call calls)
  obtain level d where call: "call = (level, d)"
    by (cases call)
  from Cons.prems call have d: "validDraws d" and pool: "candidateWords tbl wm level = pool"
    and rest: "list_all (\<lambda>(level, d). validDraws d \<and> candidateWords tbl wm level = pool) calls"
    by simp_all
  obtain q wm1 where q: "generateQuestion tbl level d wm = Inr (q, wm1)"
      "recentWords wm1 = pushRecent (target (correctWord q)) (recentWords wm)"
      "customWords wm1 = customWords wm"
    using generateQuestion_buffer[OF d, of tbl wm level] assms pool by auto
  have rest1: "list_all (\<lambda>(level, d). validDraws d \<and> candidateWords tbl wm1 level = pool) calls"
    using rest by (simp add: candidateWords_cong[OF q(3)])
  obtain qs wm2 where qs: "generateQuestions tbl calls wm1 = Inr (qs, wm2)"
      "length qs = length calls"
      "recentWords wm2 =
         foldl (\<lambda>r t. pushRecent t r) (recentWords wm1) (map (\<lambda>q. target (correctWord q)) qs)"
    using Cons.IH[OF rest1] by blast
  have "generateQuestions tbl (call # calls) wm = Inr (q # qs, wm2)"
    using call q(1) qs(1) by simp
  then show ?case
    using qs(2,3) q(2) by simp
qed

text \<open>
  Claim C6. Any sequence of \<open>generateQuestion\<close> calls over a fixed, non-empty candidate
  pool, on a manager whose buffer holds at most 20 entries, returns; afterwards the buffer
  holds at most 20 entries, namely the 20 most recent entries of the old buffer followed by
  the picked target texts in order (the oldest are the ones evicted). When the pool has at
  least 21 distinct target texts, no target text is picked twice within 20 consecutive
  questions.
\<close>

theorem recency_window:
  assumes "list_all (\<lambda>(level, d). validDraws d \<and> candidateWords tbl wm level = pool) calls"
    and "pool \<noteq> []"
    and "length (recentWords wm) \<le> 20"
  shows "\<exists>qs wm'. generateQuestions tbl calls wm = Inr (qs, wm') \<and> length qs = length calls \<and>
           length (recentWords wm') \<le> 20 \<and>
           recentWords wm' = lastN 20 (recentWords wm @ map (\<lambda>q. target (correctWord q)) qs) \<and>
           (21 \<le> card (target ` set pool) \<longrightarrow>
              (\<forall>k. distinct (take 20 (drop k (map (\<lambda>q. target (correctWord q)) qs)))))"
proof -
  obtain qs wm' where qs: "generateQuestions tbl calls wm = Inr (qs, wm')"
      "length qs = length calls"
      "recentWords wm' =
         foldl (\<lambda>r t. pushRecent t r) (recentWords wm) (map (\<lambda>q. target (correctWord q)) qs)"
    using generateQuestions_buffer[OF assms(2,1)] by blast
  have r: "recentWords wm' = lastN 20 (recentWords wm @ map (\<lambda>q. target (correctWord q)) qs)"
    using qs(3) pushAll_lastN[OF assms(3)] by simp
  then have len: "length (recentWords wm') \<le> 20"
    by (simp add: lastN_def)
  have "\<forall>k. distinct (take 20 (drop k (map (\<lambda>q. target (correctWord q)) qs)))"
    if big: "21 \<le> card (target ` set pool)"
  proof -
    obtain qs2 wm2 where qs2: "generateQuestions tbl calls wm = Inr (qs2, wm2)"
        "freshPicks (recentWords wm) (map (\<lambda>q. target (correctWord q)) qs2)"
      using generateQuestions_fresh[OF big assms(1,3)] by blast
    from qs2(1) qs(1) have "qs2 = qs"
      by simp
    with qs2(2) show ?thesis
      using fresh_window[OF _ assms(3)] by blast
  qed
  with qs(1,2) r len show ?thesis
    by blast
qed

theorem recency_window_witness:
  "list_all (\<lambda>(level, d). validDraws d \<and>
       candidateWords (\<lambda>_. largePool) newWordManager level = largePool)
     (replicate 25 (1, sampleDraws)) \<and>
   largePool \<noteq> [] \<and>
   length (recentWords newWordManager) \<le> 20 \<and>
   21 \<le> card (target ` set largePool) \<and>
   (\<exists>qs wm'. generateQuestions (\<lambda>_. largePool) (replicate 25 (1, sampleDraws)) newWordManager =
        Inr (qs, wm') \<and>
      length qs = length (replicate 25 (1::int, sampleDraws)) \<and>
      length (recentWords wm') \<le> 20 \<and>
      recentWords wm' =
        lastN 20 (recentWords newWordManager @ map (\<lambda>q. target (correctWord q)) qs) \<and>
      (\<forall>k. distinct (take 20 (drop k (map (\<lambda>q. target (correctWord q)) qs)))))"
proof -
  have calls: "list_all (\<lambda>(level, d). validDraws d \<and>
       candidateWords (\<lambda>_. largePool) newWordManager level = largePool)
     (replicate 25 (1, sampleDraws))"
    by (simp add: list_all_iff validDraws_sample candidateWords_def getAvailableWords_def
        newWordManager_def)
  have pool: "21 \<le> card (target ` set largePool)"
    by (simp add: card_largePool)
  then have nonempty: "largePool \<noteq> []"
    by auto
  have buffer: "length (recentWords newWordManager) \<le> 20"
    by (simp add: newWordManager_def)
  from recency_window[OF calls nonempty buffer] calls nonempty pool buffer show ?thesis
    by blast
qed


section \<open>Properties of the gate lifecycle\<close>

lemma processGateCollision_frame:
  "gates (processGateCollision now gate st) = gates st"
  "gameSpeed (processGateCollision now gate st) = gameSpeed st"
  "removed (processGateCollision now gate st) = removed st"
  "difficultySystem (processGateCollision now gate st) = difficultySystem st"
  by (simp_all add: processGateCollision_def gameOver_def Let_def case_prod_beta)

lemma processGateCollision_answers:
  "totalAnswers (scoreSystem (processGateCollision now gate st)) = totalAnswers (scoreSystem st) + 1"
  by (simp add: processGateCollision_def gameOver_def Let_def case_prod_beta calculateScore_fields)

lemma progress_settle:
  "progress (settle v now speed gate) = gateProgress v (now - spawnTime gate) speed"
  by (simp add: settle_def advanceGate_def Let_def)

lemma passed_settle: "passed v (settle v now speed gate) = passed v (advanceGate v now speed gate)"
  by (simp add: settle_def passed_def Let_def)

lemma gameSpeed_gateStep: "gameSpeed (gateStep v now i st) = gameSpeed st"
  by (simp add: gateStep_def Let_def processGateCollision_frame)

lemma difficultySystem_gateStep: "difficultySystem (gateStep v now i st) = difficultySystem st"
  by (simp add: gateStep_def Let_def processGateCollision_frame)

lemma gates_gateStep:
  assumes "i < length (gates st)"
  shows "gates (gateStep v now i st) =
     take i (gates st) @
     (if passed v (settle v now (gameSpeed st) (gates st ! i)) then []
      else [settle v now (gameSpeed st) (gates st ! i)]) @
     drop (Suc i) (gates st)"
  using assms
  by (simp add: gateStep_def Let_def processGateCollision_frame settle_def passed_def
      upd_conv_take_nth_drop)

lemma removed_gateStep:
  assumes "i < length (gates st)"
  shows "removed (gateStep v now i st) =
     removed st @
     (if passed v (settle v now (gameSpeed st) (gates st ! i))
      then [settle v now (gameSpeed st) (gates st ! i)] else [])"
  using assms
  by (simp add: gateStep_def Let_def processGateCollision_frame settle_def passed_def)

lemma answers_gateStep:
  "totalAnswers (scoreSystem (gateStep v now i st)) =
     totalAnswers (scoreSystem st) +
     (if collides v (advanceGate v now (gameSpeed st) (gates st ! i)) then 1 else 0)"
  by (simp add: gateStep_def Let_def processGateCollision_answers)

lemma length_gateStep:
  assumes "i < length (gates st)"
  shows "i \<le> length (gates (gateStep v now i st))"
  using assms by (simp add: gates_gateStep)

lemma gates_gateLoop:
  "i \<le> length (gates st) \<Longrightarrow>
   gates (gateLoop v now i st) =
     filter (\<lambda>g. \<not> passed v g) (map (settle v now (gameSpeed st)) (take i (gates st))) @
     drop i (gates st)"
proof (induction i arbitrary: st)
  case 0
  then show ?case by simp
next
  case (Suc i)
  let ?st = "gateStep v now i st"
  let ?gs = "gates st"
  from Suc.prems have i: "i < length ?gs" by simp
  have g: "gates ?st = take i ?gs @
     (if passed v (settle v now (gameSpeed st) (?gs ! i)) then []
      else [settle v now (gameSpeed st) (?gs ! i)]) @ drop (Suc i) ?gs"
    using gates_gateStep[OF i] .
  then have len: "i \<le> length (gates ?st)"
    using i by simp
  have tk: "take i (gates ?st) = take i ?gs"
    using g i by simp
  have dr: "drop i (gates ?st) =
     (if passed v (settle v now (gameSpeed st) (?gs ! i)) then []
      else [settle v now (gameSpeed st) (?gs ! i)]) @ drop (Suc i) ?gs"
    using g i by simp
  have "gates (gateLoop v now (Suc i) st) = gates (gateLoop v now i ?st)"
    by simp
  also have "\<dots> = filter (\<lambda>g. \<not> passed v g) (map (settle v now (gameSpeed st)) (take i ?gs)) @
      drop i (gates ?st)"
    using Suc.IH[OF len] by (simp add: gameSpeed_gateStep tk)
  finally show ?case
    using i by (simp add: dr take_Suc_conv_app_nth)
qed

lemma difficultySystem_gateLoop: "difficultySystem (gateLoop v now i st) = difficultySystem st"
  by (induction i arbitrary: st) (simp_all add: difficultySystem_gateStep)

text \<open>A frame in which no drawing raises runs the loop body on every gate.\<close>

lemma updateGates_Inr:
  "updateGates v now i st = Inr st' \<Longrightarrow> st' = gateLoop v now i st"
proof (induction i arbitrary: st)
  case 0
  then show ?case by simp
next
  case (Suc i)
  then show ?case
    by (auto simp add: updateGate_def split: sum.splits)
qed

lemma updateGates_Game3D: "updateGates Game3D now i st = Inr (gateLoop Game3D now i st)"
  by (induction i arbitrary: st) (simp_all add: updateGate_def)

lemma updateGates_outcome:
  "updateGates v now i st = Inl TypeError \<or> updateGates v now i st = Inr (gateLoop v now i st)"
proof (cases "updateGates v now i st")
  case (Inl e)
  then show ?thesis by (cases e) simp
next
  case (Inr st')
  then show ?thesis using updateGates_Inr[OF Inr] by simp
qed

lemma gateProgress_GameScene_le: "gateProgress GameScene elapsed speed \<le> 1"
  by simp

lemma not_passed_GameScene: "\<not> passed GameScene (settle GameScene now speed gate)"
  by (simp add: passed_def progress_settle)

lemma gates_gateLoop_GameScene:
  "gates (gateLoop GameScene now (length (gates st)) st) =
     map (settle GameScene now (gameSpeed st)) (gates st)"
  by (simp add: gates_gateLoop not_passed_GameScene)

text \<open>
  In \<open>Game3D\<close> the progress is not clamped: a frame at least \<open>4600 / speed\<close>
  milliseconds after the spawn removes the gate.
\<close>

lemma gate_removed_Game3D:
  assumes "0 < speed" and "spawnTime gate + 4600 / speed \<le> now"
  shows "passed Game3D (settle Game3D now speed gate)"
proof -
  have "4600 / speed \<le> now - spawnTime gate"
    using assms(2) by simp
  then have "4600 \<le> (now - spawnTime gate) * speed"
    using assms(1) by (simp add: pos_divide_le_eq)
  then show ?thesis
    by (simp add: passed_def progress_settle)
qed

subsection \<open>The history of the gates\<close>

lemma thresholds: "collisionThreshold v < removalThreshold v"
  by (cases v) simp_all

text \<open>The gate that the loop body leaves, when the gate it found had been resolved once.\<close>

lemma settle_resolved:
  assumes "collisions gate = (if processed gate then 1 else 0)"
  shows "collisions (settle v now speed gate) = (if processed (settle v now speed gate) then 1 else 0)"
    and "collisionThreshold v \<le> progress (settle v now speed gate) \<longrightarrow>
         processed (settle v now speed gate)"
    and "passed v (settle v now speed gate) \<longrightarrow>
         processed (settle v now speed gate) \<and> collisions (settle v now speed gate) = 1"
    and "int (collisions (settle v now speed gate)) =
         int (collisions gate) + (if collides v (advanceGate v now speed gate) then 1 else 0)"
  using assms thresholds[of v]
  by (auto simp add: settle_def advanceGate_def collides_def passed_def Let_def)

lemma sum_collisions_nth:
  assumes "i < length gs"
  shows "sum_list (map collisions gs) =
     sum_list (map collisions (take i gs)) + collisions (gs ! i) +
     sum_list (map collisions (drop (Suc i) gs))"
proof -
  have "gs = take i gs @ gs ! i # drop (Suc i) gs"
    using assms by (rule id_take_nth_drop)
  then have "sum_list (map collisions gs) =
      sum_list (map collisions (take i gs @ gs ! i # drop (Suc i) gs))"
    by simp
  then show ?thesis
    by simp
qed

lemma resolvedOnce_gateStep:
  assumes "i < length (gates st)" and "resolvedOnce v st"
  shows "resolvedOnce v (gateStep v now i st)"
proof -
  let ?P = "\<lambda>g. collisions g = (if processed g then 1 else 0) \<and>
                 (collisionThreshold v \<le> progress g \<longrightarrow> processed g)"
  let ?g = "gates st ! i"
  let ?g' = "settle v now (gameSpeed st) ?g"
  from assms(2) have all: "list_all ?P (gates st)"
    and rem: "list_all (\<lambda>g. processed g \<and> collisions g = 1) (removed st)"
    and tot: "totalAnswers (scoreSystem st) =
        int (sum_list (map collisions (gates st @ removed st)))"
    by (simp_all add: resolvedOnce_def)
  have "?g \<in> set (gates st)"
    using assms(1) by simp
  with all have g: "collisions ?g = (if processed ?g then 1 else 0)"
    by (simp add: list_all_iff)
  note s = settle_resolved[OF g, of v now "gameSpeed st"]
  have tk: "list_all ?P (take i (gates st))" and dr: "list_all ?P (drop (Suc i) (gates st))"
    using all by (auto simp add: list_all_iff dest: in_set_takeD in_set_dropD)
  have gates': "list_all ?P (gates (gateStep v now i st))"
    using tk dr s(1,2) by (simp add: gates_gateStep[OF assms(1)])
  have removed': "list_all (\<lambda>g. processed g \<and> collisions g = 1) (removed (gateStep v now i st))"
    using rem s(3) by (simp add: removed_gateStep[OF assms(1)])
  have "int (sum_list (map collisions (gates (gateStep v now i st) @ removed (gateStep v now i st)))) =
      int (sum_list (map collisions (take i (gates st)))) + int (collisions ?g') +
      int (sum_list (map collisions (drop (Suc i) (gates st)))) +
      int (sum_list (map collisions (removed st)))"
    by (simp add: gates_gateStep[OF assms(1)] removed_gateStep[OF assms(1)])
  also have "\<dots> = int (sum_list (map collisions (gates st @ removed st))) +
      (if collides v (advanceGate v now (gameSpeed st) ?g) then 1 else 0)"
    using s(4) by (simp add: sum_collisions_nth[OF assms(1)])
  finally have total': "totalAnswers (scoreSystem (gateStep v now i st)) =
      int (sum_list (map collisions (gates (gateStep v now i st) @ removed (gateStep v now i st))))"
    using tot by (simp add: answers_gateStep)
  from gates' removed' total' show ?thesis
    by (simp add: resolvedOnce_def)
qed

lemma resolvedOnce_gateLoop:
  "i \<le> length (gates st) \<Longrightarrow> resolvedOnce v st \<Longrightarrow> resolvedOnce v (gateLoop v now i st)"
proof (induction i arbitrary: st)
  case 0
  then show ?case by simp
next
  case (Suc i)
  from Suc.prems(1) have i: "i < length (gates st)"
    by simp
  have "resolvedOnce v (gateStep v now i st)"
    using i Suc.prems(2) by (rule resolvedOnce_gateStep)
  with length_gateStep[OF i] show ?case
    using Suc.IH[of "gateStep v now i st"] by simp
qed

lemma resolvedOnce_spawnGate:
  assumes "spawnGate v tbl now d st = Inr st'" and "resolvedOnce v st"
  shows "resolvedOnce v st'"
proof -
  have thr: "\<not> collisionThreshold v \<le> 0"
    by (cases v) simp_all
  from assms(1) obtain q wm where
      st': "st' = (if length (gates st) = 0 then st\<lparr>wordManager := wm, questionStartTime := now\<rparr>
                        else st\<lparr>wordManager := wm\<rparr>)
                   \<lparr>gates := gates st @ [\<lparr>progress = 0, question = q, processed = False,
                                spawnTime = now, collisions = 0\<rparr>],
                    lastGateSpawnTime := now\<rparr>"
    by (cases v)
      (auto simp add: spawnGate_def createGate_def Let_def split: sum.splits prod.splits if_splits)
  from assms(2) thr show ?thesis
    by (simp add: st' resolvedOnce_def)
qed

lemma resolvedOnce_animate:
  assumes "animate v upd tbl now d st = Inr st'" and "resolvedOnce v st"
  shows "resolvedOnce v st'"
proof (cases "isGameOver st \<or> isPaused st")
  case True
  with assms show ?thesis
    by (auto simp add: animate_def split: if_splits)
next
  case False
  from assms(1) False obtain settings notified st2 where
      upd: "upd (of_int (correctAnswers (scoreSystem st))) (difficultySystem st) =
              Inr (settings, notified)"
      and loop: "updateGates v now (length (gates st))
                   (st\<lparr>difficultySystem := settings, gameSpeed := speedMultiplier settings\<rparr>) =
                 Inr st2"
      and last: "st' = st2 \<or> spawnGate v tbl now d st2 = Inr st'"
    by (auto simp add: animate_def Let_def split: sum.splits prod.splits if_splits)
  let ?st1 = "st\<lparr>difficultySystem := settings, gameSpeed := speedMultiplier settings\<rparr>"
  have "resolvedOnce v ?st1"
    using assms(2) by (simp add: resolvedOnce_def)
  then have "resolvedOnce v (gateLoop v now (length (gates ?st1)) ?st1)"
    by (intro resolvedOnce_gateLoop) simp_all
  then have "resolvedOnce v st2"
    using updateGates_Inr[OF loop] by simp
  with last show ?thesis
    using resolvedOnce_spawnGate by blast
qed

lemma resolvedOnce_play:
  "play v upd tbl inputs st = Inr st' \<Longrightarrow> resolvedOnce v st \<Longrightarrow> resolvedOnce v st'"
proof (induction inputs arbitrary: st)
  case Nil
  then show ?case by simp
next
  case (Cons input inputs)
  show ?case
  proof (cases input)
    case (Frame now d)
    with Cons.prems(1) obtain st1 where st1: "animate v upd tbl now d st = Inr st1"
        "play v upd tbl inputs st1 = Inr st'"
      by (auto split: sum.splits)
    have "resolvedOnce v st1"
      using st1(1) Cons.prems(2) by (rule resolvedOnce_animate)
    with st1(2) show ?thesis
      by (rule Cons.IH)
  next
    case PauseKey
    have "resolvedOnce v (togglePause st)"
      using Cons.prems(2) by (simp add: resolvedOnce_def togglePause_def)
    with Cons.prems(1) PauseKey show ?thesis
      using Cons.IH[of "togglePause st"] by simp
  qed
qed

lemma resolvedOnce_newGame: "resolvedOnce v (newGame wm)"
  by (simp add: resolvedOnce_def newGame_def newScoreSystem_def)

subsection \<open>The levels that reach the scoring engine\<close>

text \<open>
  \<open>processGateCollision\<close> passes the level of the current difficulty settings. With
  either controller the settings are, from the first frame on, a row of its table: in every
  state of a session the level is one of 1 to 6.
\<close>

lemma update_distance_range:
  assumes "1 \<le> hskLevel cur" and "hskLevel cur \<le> 6"
  shows "1 \<le> hskLevel (fst (update_distance s cur)) \<and> hskLevel (fst (update_distance s cur)) \<le> 6"
  using assms
  by (cases "0 \<le> s") (simp_all add: update_distance_level update_distance_negative)

lemma update_correct_range:
  assumes "update_correct s cur = Inr r"
  shows "1 \<le> hskLevel (fst r) \<and> hskLevel (fst r) \<le> 6"
proof (cases "0 \<le> s")
  case True
  then have "0 \<le> \<lfloor>s / 50\<rfloor>"
    by simp
  then show ?thesis
    using update_correct_level[OF True, of cur] assms by auto
next
  case False
  then show ?thesis
    using update_correct_negative[of s cur] assms by simp
qed

lemma difficultySystem_spawnGate:
  "spawnGate v tbl now d st = Inr st' \<Longrightarrow> difficultySystem st' = difficultySystem st"
  by (cases v)
    (auto simp add: spawnGate_def createGate_def Let_def split: sum.splits prod.splits if_splits)

lemma level_animate:
  assumes "upd = countGated \<or> upd = distanceGated"
    and "animate v upd tbl now d st = Inr st'"
    and "1 \<le> hskLevel (difficultySystem st) \<and> hskLevel (difficultySystem st) \<le> 6"
  shows "1 \<le> hskLevel (difficultySystem st') \<and> hskLevel (difficultySystem st') \<le> 6"
proof (cases "isGameOver st \<or> isPaused st")
  case True
  with assms(2,3) show ?thesis
    by (auto simp add: animate_def split: if_splits)
next
  case False
  from assms(2) False obtain settings notified st2 where
      upd: "upd (of_int (correctAnswers (scoreSystem st))) (difficultySystem st) =
              Inr (settings, notified)"
      and loop: "updateGates v now (length (gates st))
                   (st\<lparr>difficultySystem := settings, gameSpeed := speedMultiplier settings\<rparr>) =
                 Inr st2"
      and last: "st' = st2 \<or> spawnGate v tbl now d st2 = Inr st'"
    by (auto simp add: animate_def Let_def split: sum.splits prod.splits if_splits)
  have "1 \<le> hskLevel settings \<and> hskLevel settings \<le> 6"
    using assms(1)
  proof
    assume "upd = countGated"
    with upd show ?thesis
      using update_correct_range[of "of_int (correctAnswers (scoreSystem st))"
          "difficultySystem st" "(settings, notified)"]
      by (simp add: countGated_def)
  next
    assume "upd = distanceGated"
    with upd show ?thesis
      using update_distance_range[of "difficultySystem st"
          "of_int (correctAnswers (scoreSystem st))"] assms(3)
      by (auto simp add: distanceGated_def)
  qed
  moreover have "difficultySystem st2 = settings"
    using updateGates_Inr[OF loop] by (simp add: difficultySystem_gateLoop)
  moreover have "difficultySystem st' = difficultySystem st2"
    using last difficultySystem_spawnGate by blast
  ultimately show ?thesis
    by simp
qed

lemma levels_in_play:
  assumes "upd = countGated \<or> upd = distanceGated"
  shows "play v upd tbl inputs st = Inr st' \<Longrightarrow>
     1 \<le> hskLevel (difficultySystem st) \<and> hskLevel (difficultySystem st) \<le> 6 \<Longrightarrow>
     1 \<le> hskLevel (difficultySystem st') \<and> hskLevel (difficultySystem st') \<le> 6"
proof (induction inputs arbitrary: st)
  case Nil
  then show ?case by simp
next
  case (Cons input inputs)
  show ?case
  proof (cases input)
    case (Frame now d)
    with Cons.prems(1) obtain st1 where st1: "animate v upd tbl now d st = Inr st1"
        "play v upd tbl inputs st1 = Inr st'"
      by (auto split: sum.splits)
    have "1 \<le> hskLevel (difficultySystem st1) \<and> hskLevel (difficultySystem st1) \<le> 6"
      using assms st1(1) Cons.prems(2) by (rule level_animate)
    with st1(2) show ?thesis
      by (rule Cons.IH)
  next
    case PauseKey
    with Cons.prems show ?thesis
      using Cons.IH[of "togglePause st"] by (simp add: togglePause_def)
  qed
qed

lemma level_newGame:
  "1 \<le> hskLevel (difficultySystem (newGame wm)) \<and> hskLevel (difficultySystem (newGame wm)) \<le> 6"
  by (simp add: newGame_def initialSettings_def)

text \<open>
  The signal that both classes pass to the difficulty controller is the count of correct
  answers, which is never negative.
\<close>

lemma scoreSystem_processGateCollision:
  "scoreSystem (processGateCollision now gate st) =
     snd (calculateScore (currentLane st = correctLane (question gate))
            (now - questionStartTime st) (hskLevel (difficultySystem st)) (scoreSystem st))"
  by (simp add: processGateCollision_def gameOver_def Let_def case_prod_beta)

lemma correctAnswers_gateStep:
  "correctAnswers (scoreSystem st) \<le> correctAnswers (scoreSystem (gateStep v now i st))"
  by (simp add: gateStep_def Let_def scoreSystem_processGateCollision calculateScore_fields
      processGateCollision_frame)

lemma correctAnswers_gateLoop:
  "correctAnswers (scoreSystem st) \<le> correctAnswers (scoreSystem (gateLoop v now i st))"
proof (induction i arbitrary: st)
  case 0
  then show ?case by simp
next
  case (Suc i)
  have "correctAnswers (scoreSystem st) \<le> correctAnswers (scoreSystem (gateStep v now i st))"
    by (rule correctAnswers_gateStep)
  also have "\<dots> \<le> correctAnswers (scoreSystem (gateLoop v now i (gateStep v now i st)))"
    by (rule Suc.IH)
  finally show ?case by simp
qed

lemma scoreSystem_spawnGate:
  "spawnGate v tbl now d st = Inr st' \<Longrightarrow> scoreSystem st' = scoreSystem st"
  by (cases v)
    (auto simp add: spawnGate_def createGate_def Let_def split: sum.splits prod.splits if_splits)

lemma signal_animate:
  assumes "animate v upd tbl now d st = Inr st'" and "0 \<le> correctAnswers (scoreSystem st)"
  shows "0 \<le> correctAnswers (scoreSystem st')"
proof (cases "isGameOver st \<or> isPaused st")
  case True
  with assms show ?thesis
    by (auto simp add: animate_def split: if_splits)
next
  case False
  from assms(1) False obtain settings st2 where
      loop: "updateGates v now (length (gates st))
                   (st\<lparr>difficultySystem := settings, gameSpeed := speedMultiplier settings\<rparr>) =
                 Inr st2"
      and last: "st' = st2 \<or> spawnGate v tbl now d st2 = Inr st'"
    by (auto simp add: animate_def Let_def split: sum.splits prod.splits if_splits)
  have "0 \<le> correctAnswers (scoreSystem st2)"
    using updateGates_Inr[OF loop] assms(2)
      correctAnswers_gateLoop[of "st\<lparr>difficultySystem := settings,
        gameSpeed := speedMultiplier settings\<rparr>" v now "length (gates st)"]
    by simp
  with last show ?thesis
    using scoreSystem_spawnGate by fastforce
qed

lemma signal_in_play:
  "play v upd tbl inputs st = Inr st' \<Longrightarrow> 0 \<le> correctAnswers (scoreSystem st) \<Longrightarrow>
   0 \<le> correctAnswers (scoreSystem st')"
proof (induction inputs arbitrary: st)
  case Nil
  then show ?case by simp
next
  case (Cons input inputs)
  show ?case
  proof (cases input)
    case (Frame now d)
    with Cons.prems(1) obtain st1 where st1: "animate v upd tbl now d st = Inr st1"
        "play v upd tbl inputs st1 = Inr st'"
      by (auto split: sum.splits)
    have "0 \<le> correctAnswers (scoreSystem st1)"
      using st1(1) Cons.prems(2) by (rule signal_animate)
    with st1(2) show ?thesis
      by (rule Cons.IH)
  next
    case PauseKey
    with Cons.prems show ?thesis
      using Cons.IH[of "togglePause st"] by (simp add: togglePause_def)
  qed
qed

text \<open>
  With the levels of the tables every call of the scoring engine adds a total that is not
  negative: in every state of a session, with either controller, the score is not negative.
\<close>

lemma scoreSystem_gateStep:
  "scoreSystem (gateStep v now i st) =
     (if collides v (advanceGate v now (gameSpeed st) (gates st ! i))
      then snd (calculateScore
                  (currentLane st =
                     correctLane (question (advanceGate v now (gameSpeed st) (gates st ! i))))
                  (now - questionStartTime st) (hskLevel (difficultySystem st)) (scoreSystem st))
      else scoreSystem st)"
  by (simp add: gateStep_def Let_def scoreSystem_processGateCollision processGateCollision_frame)

lemma score_gateStep:
  assumes "1 \<le> hskLevel (difficultySystem st)" and "0 \<le> score (scoreSystem st)"
  shows "0 \<le> score (scoreSystem (gateStep v now i st))"
  using assms totalPoints_nonneg[OF assms(1)]
  by (simp add: scoreSystem_gateStep score_step)

lemma score_gateLoop:
  "1 \<le> hskLevel (difficultySystem st) \<Longrightarrow> 0 \<le> score (scoreSystem st) \<Longrightarrow>
   0 \<le> score (scoreSystem (gateLoop v now i st))"
proof (induction i arbitrary: st)
  case 0
  then show ?case by simp
next
  case (Suc i)
  have "0 \<le> score (scoreSystem (gateStep v now i st))"
    using Suc.prems by (rule score_gateStep)
  moreover have "1 \<le> hskLevel (difficultySystem (gateStep v now i st))"
    using Suc.prems(1) by (simp add: difficultySystem_gateStep)
  ultimately show ?case
    using Suc.IH[of "gateStep v now i st"] by simp
qed

lemma score_animate:
  assumes "upd = countGated \<or> upd = distanceGated"
    and "animate v upd tbl now d st = Inr st'"
    and "1 \<le> hskLevel (difficultySystem st) \<and> hskLevel (difficultySystem st) \<le> 6"
    and "0 \<le> score (scoreSystem st)"
  shows "0 \<le> score (scoreSystem st')"
proof (cases "isGameOver st \<or> isPaused st")
  case True
  with assms(2,4) show ?thesis
    by (auto simp add: animate_def split: if_splits)
next
  case False
  from assms(2) False obtain settings notified st2 where
      upd: "upd (of_int (correctAnswers (scoreSystem st))) (difficultySystem st) =
              Inr (settings, notified)"
      and loop: "updateGates v now (length (gates st))
                   (st\<lparr>difficultySystem := settings, gameSpeed := speedMultiplier settings\<rparr>) =
                 Inr st2"
      and last: "st' = st2 \<or> spawnGate v tbl now d st2 = Inr st'"
    by (auto simp add: animate_def Let_def split: sum.splits prod.splits if_splits)
  let ?st1 = "st\<lparr>difficultySystem := settings, gameSpeed := speedMultiplier settings\<rparr>"
  have "1 \<le> hskLevel settings"
    using assms(1)
  proof
    assume "upd = countGated"
    with upd show ?thesis
      using update_correct_range[of "of_int (correctAnswers (scoreSystem st))"
          "difficultySystem st" "(settings, notified)"]
      by (simp add: countGated_def)
  next
    assume "upd = distanceGated"
    with upd show ?thesis
      using update_distance_range[of "difficultySystem st"
          "of_int (correctAnswers (scoreSystem st))"] assms(3)
      by (auto simp add: distanceGated_def)
  qed
  then have "0 \<le> score (scoreSystem (gateLoop v now (length (gates st)) ?st1))"
    using assms(4) by (intro score_gateLoop) simp_all
  then have "0 \<le> score (scoreSystem st2)"
    using updateGates_Inr[OF loop] by simp
  with last show ?thesis
    using scoreSystem_spawnGate by fastforce
qed

lemma score_in_play:
  assumes "upd = countGated \<or> upd = distanceGated"
  shows "play v upd tbl inputs st = Inr st' \<Longrightarrow>
     1 \<le> hskLevel (difficultySystem st) \<and> hskLevel (difficultySystem st) \<le> 6 \<Longrightarrow>
     0 \<le> score (scoreSystem st) \<Longrightarrow> 0 \<le> score (scoreSystem st')"
proof (induction inputs arbitrary: st)
  case Nil
  then show ?case by simp
next
  case (Cons input inputs)
  show ?case
  proof (cases input)
    case (Frame now d)
    with Cons.prems(1) obtain st1 where st1: "animate v upd tbl now d st = Inr st1"
        "play v upd tbl inputs st1 = Inr st'"
      by (auto split: sum.splits)
    have "1 \<le> hskLevel (difficultySystem st1) \<and> hskLevel (difficultySystem st1) \<le> 6"
      using assms st1(1) Cons.prems(2) by (rule level_animate)
    moreover have "0 \<le> score (scoreSystem st1)"
      using assms st1(1) Cons.prems(2,3) by (rule score_animate)
    ultimately show ?thesis
      using st1(2) Cons.IH by blast
  next
    case PauseKey
    with Cons.prems show ?thesis
      using Cons.IH[of "togglePause st"] by (simp add: togglePause_def)
  qed
qed

subsection \<open>Sessions\<close>

lemmas game_eval =
  animate_def togglePause_def spawnGate_def createGate_def renderGate_def updateGate_def
  gateStep_def advanceGate_def collides_def
  passed_def processGateCollision_def gameOver_def newGame_def countGated_def update_correct_def
  CORRECT_ANSWERS_PER_LEVEL_def LEVEL_SETTINGS_def distanceGated_def update_distance_def
  DIFFICULTY_THRESHOLDS_def levelChange_def initialSettings_def
  newScoreSystem_def calculateScore_def streakBonusFor_def
  generateQuestion_def candidateWords_def getAvailableWords_def
  newWordManager_def pickCorrectWord_def arrayAt_def randomIndex_def samplePool_def
  sampleDraws_def sampleWord_def getDistractors_def shuffle_def laneOptions_def
  addOption_def lanes_def numeral_3_eq_3 pushRecent_def maxRecentWords_def Let_def

text \<open>
  A deck of one word gives questions with two undefined options. \<open>Game3D\<close> raises in
  \<open>createGate\<close> at the first spawn; \<open>GameScene\<close> pushes the gate and raises in
  \<open>renderGate\<close> in the next frame.
\<close>

lemma single_word_deck_raises:
  "play Game3D countGated (\<lambda>_. []) [Frame 0 sampleDraws]
     (newGame (setCustomWords [sampleWord ''a'' ''x''] newWordManager)) = Inl TypeError \<and>
   map_sum id (length \<circ> gates)
     (play GameScene distanceGated (\<lambda>_. []) [Frame 0 sampleDraws]
        (newGame (setCustomWords [sampleWord ''a'' ''x''] newWordManager))) = Inr 1 \<and>
   play GameScene distanceGated (\<lambda>_. []) [Frame 0 sampleDraws, Frame 16 sampleDraws]
     (newGame (setCustomWords [sampleWord ''a'' ''x''] newWordManager)) = Inl TypeError"
  by (simp add: game_eval setCustomWords_def)

text \<open>
  Claim C8 against the code. \<open>togglePause\<close> flips \<open>isPaused\<close> and restarts the three.js
  clock, which only feeds the frame delta; the progress of a gate is computed from
  \<open>performance.now() - gate.spawnTime\<close>, and neither term is adjusted for the pause. A
  gate spawned at time 0 has progress 1/4 when the game is paused at 1000 ms; frames while
  paused leave it there; the first frame after the resume at 3000 ms puts it at 3/4.
\<close>

theorem pause_changes_progress:
  "map_sum id (map progress \<circ> gates)
     (play Game3D countGated (\<lambda>_. samplePool)
        [Frame 0 sampleDraws, Frame 1000 sampleDraws, PauseKey]
        (newGame newWordManager)) = Inr [1 / 4] \<and>
   map_sum id (map progress \<circ> gates)
     (play Game3D countGated (\<lambda>_. samplePool)
        [Frame 0 sampleDraws, Frame 1000 sampleDraws, PauseKey, Frame 2000 sampleDraws]
        (newGame newWordManager)) = Inr [1 / 4] \<and>
   map_sum id (map progress \<circ> gates)
     (play Game3D countGated (\<lambda>_. samplePool)
        [Frame 0 sampleDraws, Frame 1000 sampleDraws, PauseKey, Frame 2000 sampleDraws,
         PauseKey, Frame 3000 sampleDraws]
        (newGame newWordManager)) = Inr [3 / 4]"
  by (simp add: game_eval)

text \<open>
  Claim C2 against the code. \<open>GameScene.update\<close> clamps the progress with
  \<open>Math.min(1, ...)\<close> and tests \<open>gate.progress >= 1.1\<close> for the removal: the progress
  never exceeds 1, no gate ever satisfies the removal test, and the loop keeps every gate
  of the array, also with the drawing, unless that raises. In the session below the gate spawned at time 0 is still active, with
  progress 1, at 100000 ms. The guide of the repository warns of exactly this ("Gate progress
  must exceed 1.0 for removal"), and \<open>Game3D\<close> does not clamp.
\<close>

theorem gameScene_gate_never_removed:
  "gateProgress GameScene elapsed speed \<le> 1 \<and>
   \<not> passed GameScene (settle GameScene now speed gate) \<and>
   gates (gateLoop GameScene now (length (gates st)) st) =
     map (settle GameScene now (gameSpeed st)) (gates st) \<and>
   (updateGates GameScene now (length (gates st)) st = Inl TypeError \<or>
    map_sum id gates (updateGates GameScene now (length (gates st)) st) =
      Inr (map (settle GameScene now (gameSpeed st)) (gates st))) \<and>
   map_sum id (\<lambda>st. (map spawnTime (gates st), map progress (gates st)))
     (play GameScene distanceGated (\<lambda>_. samplePool)
        [Frame 0 sampleDraws, Frame 100000 sampleDraws] (newGame newWordManager)) =
     Inr ([0, 100000], [1, 0])"
proof -
  have "map_sum id (\<lambda>st. (map spawnTime (gates st), map progress (gates st)))
     (play GameScene distanceGated (\<lambda>_. samplePool)
        [Frame 0 sampleDraws, Frame 100000 sampleDraws] (newGame newWordManager)) =
     Inr ([0, 100000], [1, 0])"
    by (simp add: game_eval)
  moreover have "updateGates GameScene now (length (gates st)) st = Inl TypeError \<or>
    map_sum id gates (updateGates GameScene now (length (gates st)) st) =
      Inr (map (settle GameScene now (gameSpeed st)) (gates st))"
    using updateGates_outcome[of GameScene now "length (gates st)" st]
    by (auto simp add: gates_gateLoop_GameScene)
  ultimately show ?thesis
    using gates_gateLoop_GameScene[of now st] not_passed_GameScene[of now speed gate]
    by simp
qed

text \<open>
  Claim C4. In every state that a session reaches from the start of a game, in either
  class, through any frames at any times and any presses of the pause key, every gate has
  been resolved at most once: an active gate has received exactly one call of
  \<open>processGateCollision\<close> if its progress has reached the collision threshold, and it is
  then marked processed; it has received none before. A gate is removed only after it has
  been resolved, so a removed gate has received exactly one call over its lifetime. The
  scoring engine has been called exactly as often as gates have been resolved.
\<close>

theorem collision_resolved_once:
  assumes "play v upd tbl inputs (newGame wm) = Inr st"
  shows "(\<forall>g\<in>set (gates st).
            collisions g = (if processed g then 1 else 0) \<and>
            (collisionThreshold v \<le> progress g \<longrightarrow> processed g)) \<and>
         (\<forall>g\<in>set (removed st). processed g \<and> collisions g = 1) \<and>
         totalAnswers (scoreSystem st) =
           int (sum_list (map collisions (gates st @ removed st)))"
  using resolvedOnce_play[OF assms resolvedOnce_newGame]
  by (simp add: resolvedOnce_def list_all_iff)

theorem collision_resolved_once_witness:
  "\<exists>st. play Game3D countGated (\<lambda>_. samplePool)
          [Frame 0 sampleDraws, Frame 1000 sampleDraws, Frame 3950 sampleDraws,
           Frame 4000 sampleDraws, PauseKey, Frame 4200 sampleDraws, PauseKey,
           Frame 4550 sampleDraws, Frame 4700 sampleDraws]
          (newGame newWordManager) = Inr st \<and>
        map spawnTime (gates st) = [4550] \<and> map collisions (gates st) = [0] \<and>
        map processed (gates st) = [False] \<and>
        map spawnTime (removed st) = [0] \<and> map collisions (removed st) = [1] \<and>
        map processed (removed st) = [True] \<and>
        totalAnswers (scoreSystem st) = 1"
proof -
  let ?session = "play Game3D countGated (\<lambda>_. samplePool)
          [Frame 0 sampleDraws, Frame 1000 sampleDraws, Frame 3950 sampleDraws,
           Frame 4000 sampleDraws, PauseKey, Frame 4200 sampleDraws, PauseKey,
           Frame 4550 sampleDraws, Frame 4700 sampleDraws]
          (newGame newWordManager)"
  let ?final = "\<lambda>st. map spawnTime (gates st) = [4550] \<and> map collisions (gates st) = [0] \<and>
        map processed (gates st) = [False] \<and>
        map spawnTime (removed st) = [0] \<and> map collisions (removed st) = [1] \<and>
        map processed (removed st) = [True] \<and>
        totalAnswers (scoreSystem st) = 1"
  have "case ?session of Inl e \<Rightarrow> False | Inr st \<Rightarrow> ?final st"
    by (simp add: game_eval)
  then obtain st where st: "?session = Inr st" "?final st"
    by (auto split: sum.splits)
  from collision_resolved_once[OF st(1)] st have "?session = Inr st \<and> ?final st"
    by simp
  then show ?thesis
    by (rule exI)
qed

end
